theory Spec2Isabelle
  imports Complex_Main "HOL-Library.Word" "HOL-Library.AList"
begin

section \<open>JavaScript values\<close>

text \<open>
  A JavaScript string is a sequence of 16-bit code units. String literals of the source
  are ASCII; \<open>js\<close> turns an ASCII literal into its code units.
\<close>

type_synonym jsstring = "16 word list"

definition js :: "string \<Rightarrow> jsstring" where
  "js s = map of_char s"

text \<open>
  The values the handlers see: query parameters, bodies of upstream responses (parsed
  from JSON by the HTTP client), fields of user documents, and \<open>new Date()\<close>.
  An object is the list of its own properties. A number carries the exact value of the
  literal it was read from; the handlers only ever test a number for truthiness, and a
  literal rounds to the double zero exactly when its magnitude is at most \<open>2 ^ -1075\<close>.
\<close>

datatype jsval =
    JUndefined
  | JNull
  | JBool bool
  | JNum rat
  | JStr jsstring
  | JDate nat
  | JArr "jsval list"
  | JObj "(jsstring \<times> jsval) list"

fun truthy :: "jsval \<Rightarrow> bool" where
  "truthy JUndefined = False"
| "truthy JNull = False"
| "truthy (JBool b) = b"
| "truthy (JNum q) = (1 / 2 ^ 1075 < \<bar>q\<bar>)"
| "truthy (JStr s) = (s \<noteq> [])"
| "truthy (JDate t) = True"
| "truthy (JArr xs) = True"
| "truthy (JObj kvs) = True"

text \<open>\<open>a || b\<close>\<close>

definition js_or :: "jsval \<Rightarrow> jsval \<Rightarrow> jsval" where
  "js_or a b = (if truthy a then a else b)"

text \<open>
  What a \<open>try\<close> block of the source can catch: a \<open>TypeError\<close> (property access on
  \<open>null\<close> or \<open>undefined\<close>, calling something that is not a function), the
  \<open>SyntaxError\<close> of \<open>JSON.parse\<close>, an error of the HTTP client (with the status of
  the response when there was one), and a failure of the user store.
\<close>

datatype exn = TypeError | SyntaxError | HttpError "nat option" | StoreError

text \<open>
  \<open>v.k\<close> for the property names of this module. None of them is a member of a built-in
  prototype, so on a primitive, a date or an array the access yields \<open>undefined\<close>;
  on \<open>null\<close> and \<open>undefined\<close> it raises.
\<close>

fun field :: "jsval \<Rightarrow> jsstring \<Rightarrow> jsval" where
  "field (JObj kvs) k = (case map_of kvs k of None \<Rightarrow> JUndefined | Some v \<Rightarrow> v)"
| "field v k = JUndefined"

definition get_prop :: "jsval \<Rightarrow> jsstring \<Rightarrow> exn + jsval" where
  "get_prop v k = (if v = JUndefined \<or> v = JNull then Inl TypeError else Inr (field v k))"

section \<open>The user store\<close>

text \<open>
  The fields this module adds to a user document; every other field of the account is
  the extension part of the record.
\<close>

record user =
  githubAccessToken :: jsval
  githubUsername :: jsval
  githubId :: jsval
  githubProfileUrl :: jsval
  githubConnectedAt :: jsval

type_synonym 'a store = "jsstring \<rightharpoonup> 'a user_scheme"

text \<open>
  The surroundings of a request: the configuration, the answers of GitHub (the body of
  the response, or the error the HTTP client raises), the verification of session tokens,
  the faults of the store, and the clock.
\<close>

record env =
  client_id :: "jsstring option"
  jwt_verify :: "jsstring \<Rightarrow> exn + jsval"
  token_exchange :: "jsstring \<Rightarrow> exn + jsval"
  fetch_profile :: "jsval \<Rightarrow> exn + jsval"
  fetch_repos :: "jsval \<Rightarrow> exn + jsval"
  find_fault :: "jsval \<Rightarrow> bool"
  save_fault :: bool
  now :: nat

text \<open>
  Modelled from the spec: the model \<open>User\<close> (\<open>../models/User\<close>) is not among the
  sources. Documents are stored under their string id; \<open>findById\<close> yields the document,
  \<open>null\<close> when there is none, or raises (a store failure, an id the store rejects);
  the access token is excluded from the default projection and needs
  \<open>select('+githubAccessToken')\<close>; \<open>save\<close> persists the document or raises and
  persists nothing.
\<close>

definition findById :: "env \<Rightarrow> 'a store \<Rightarrow> jsval \<Rightarrow> exn + (jsstring \<times> 'a user_scheme) option" where
  "findById e db v =
     (if find_fault e v then Inl StoreError
      else Inr (case v of
                  JStr s \<Rightarrow> (case db s of None \<Rightarrow> None | Some u \<Rightarrow> Some (s, u))
                | _ \<Rightarrow> None))"

definition select_default :: "'a user_scheme \<Rightarrow> 'a user_scheme" where
  "select_default u = u\<lparr>githubAccessToken := JUndefined\<rparr>"

definition select_status :: "'a user_scheme \<Rightarrow> 'a user_scheme" where
  "select_status u =
     u\<lparr>githubAccessToken := JUndefined, githubId := JUndefined, githubProfileUrl := JUndefined\<rparr>"

definition save :: "env \<Rightarrow> 'a store \<Rightarrow> jsstring \<Rightarrow> 'a user_scheme \<Rightarrow> exn + 'a store" where
  "save e db uid doc = (if save_fault e then Inl StoreError else Inr (db(uid \<mapsto> doc)))"

section \<open>Requests and their outcomes\<close>

datatype response = Redirect jsstring | Json nat jsval

text \<open>
  What a handler does besides answering: outbound HTTP calls (by URL), assignments to the
  linkage fields of the loaded document, and calls of \<open>save\<close>.
\<close>

datatype fieldname =
  GithubAccessToken | GithubUsername | GithubId | GithubProfileUrl | GithubConnectedAt

datatype effect = Outbound string | Assign fieldname jsval | SaveCall jsstring

record 'a outcome =
  response :: response
  store :: "'a store"
  effects :: "effect list"

definition message :: "string \<Rightarrow> jsval" where
  "message m = JObj [(js ''message'', JStr (js m))]"

section \<open>GET /status\<close>

text \<open>
  Lines 160 to 174. The document is read with the projection
  \<open>select('githubUsername githubConnectedAt')\<close>; a missing document makes the first
  property access raise, and the \<open>catch\<close> answers 500.
\<close>

definition status :: "env \<Rightarrow> 'a store \<Rightarrow> jsstring \<Rightarrow> 'a outcome" where
  "status e db uid =
     (case findById e db (JStr uid) of
        Inl err \<Rightarrow>
          \<lparr>response = Json 500 (message ''Failed to check GitHub status''),
           store = db, effects = []\<rparr>
      | Inr None \<Rightarrow>
          \<lparr>response = Json 500 (message ''Failed to check GitHub status''),
           store = db, effects = []\<rparr>
      | Inr (Some (i, u)) \<Rightarrow>
          (let user = select_status u in
           \<lparr>response = Json 200 (JObj
              [(js ''success'', JBool True),
               (js ''connected'', JBool (truthy (githubUsername user))),
               (js ''githubUsername'', js_or (githubUsername user) JNull),
               (js ''connectedAt'', js_or (githubConnectedAt user) JNull)]),
            store = db, effects = []\<rparr>))"

section \<open>POST /disconnect\<close>

text \<open>
  Lines 179 to 200. The five assignments are made on the loaded document and \<open>save\<close>
  writes them; on a missing document the first assignment raises.
\<close>

definition disconnect :: "env \<Rightarrow> 'a store \<Rightarrow> jsstring \<Rightarrow> 'a outcome" where
  "disconnect e db uid =
     (case findById e db (JStr uid) of
        Inl err \<Rightarrow>
          \<lparr>response = Json 500 (message ''Failed to disconnect GitHub account''),
           store = db, effects = []\<rparr>
      | Inr None \<Rightarrow>
          \<lparr>response = Json 500 (message ''Failed to disconnect GitHub account''),
           store = db, effects = []\<rparr>
      | Inr (Some (i, u)) \<Rightarrow>
          (let user = (select_default u)
                 \<lparr>githubAccessToken := JUndefined,
                  githubUsername := JUndefined,
                  githubId := JUndefined,
                  githubProfileUrl := JUndefined,
                  githubConnectedAt := JUndefined\<rparr>;
               written =
                 [Assign GithubAccessToken JUndefined, Assign GithubUsername JUndefined,
                  Assign GithubId JUndefined, Assign GithubProfileUrl JUndefined,
                  Assign GithubConnectedAt JUndefined, SaveCall i]
           in case save e db i user of
                Inl err \<Rightarrow>
                  \<lparr>response = Json 500 (message ''Failed to disconnect GitHub account''),
                   store = db, effects = written\<rparr>
              | Inr db' \<Rightarrow>
                  \<lparr>response = Json 200 (JObj
                     [(js ''success'', JBool True),
                      (js ''message'', JStr (js ''GitHub account disconnected successfully''))]),
                   store = db', effects = written\<rparr>))"

section \<open>GET /repositories\<close>

text \<open>
  Lines 205 to 255. \<open>select('+githubAccessToken')\<close> adds the token to the default
  projection, so the handler sees the stored document as it is. The entries of the
  response are mapped one by one; the body handed to \<open>res.json\<close> is kept as the value
  it is, with the properties whose value is \<open>undefined\<close>.
\<close>

definition repo_summary :: "jsval \<Rightarrow> exn + jsval" where
  "repo_summary repo =
     (if repo = JUndefined \<or> repo = JNull then Inl TypeError
      else Inr (JObj
        [(js ''id'', field repo (js ''id'')),
         (js ''name'', field repo (js ''name'')),
         (js ''fullName'', field repo (js ''full_name'')),
         (js ''description'', field repo (js ''description'')),
         (js ''private'', field repo (js ''private'')),
         (js ''htmlUrl'', field repo (js ''html_url'')),
         (js ''language'', field repo (js ''language'')),
         (js ''updatedAt'', field repo (js ''updated_at'')),
         (js ''stargazersCount'', field repo (js ''stargazers_count'')),
         (js ''forksCount'', field repo (js ''forks_count''))]))"

text \<open>\<open>Array.prototype.map\<close> with a callback that may raise: the first error ends it.\<close>

fun map_exn :: "('a \<Rightarrow> exn + 'b) \<Rightarrow> 'a list \<Rightarrow> exn + 'b list" where
  "map_exn f [] = Inr []"
| "map_exn f (x # xs) =
     (case f x of
        Inl err \<Rightarrow> Inl err
      | Inr y \<Rightarrow> (case map_exn f xs of Inl err \<Rightarrow> Inl err | Inr ys \<Rightarrow> Inr (y # ys)))"

text \<open>\<open>data.map(f)\<close>: only an array has a \<open>map\<close>; on anything else the call raises.\<close>

definition js_map :: "(jsval \<Rightarrow> exn + jsval) \<Rightarrow> jsval \<Rightarrow> exn + jsval" where
  "js_map f data =
     (case data of
        JArr xs \<Rightarrow> (case map_exn f xs of Inl err \<Rightarrow> Inl err | Inr ys \<Rightarrow> Inr (JArr ys))
      | _ \<Rightarrow> Inl TypeError)"

definition repos_url :: string where
  "repos_url = ''https://api.github.com/user/repos''"

definition repositories_failure :: "exn \<Rightarrow> response" where
  "repositories_failure err =
     (if err = HttpError (Some 401)
      then Json 401 (message
             ''GitHub access token is invalid. Please reconnect your account.'')
      else Json 500 (message ''Failed to fetch repositories''))"

definition repositories :: "env \<Rightarrow> 'a store \<Rightarrow> jsstring \<Rightarrow> 'a outcome" where
  "repositories e db uid =
     (case findById e db (JStr uid) of
        Inl err \<Rightarrow> \<lparr>response = repositories_failure err, store = db, effects = []\<rparr>
      | Inr None \<Rightarrow> \<lparr>response = repositories_failure TypeError, store = db, effects = []\<rparr>
      | Inr (Some (i, user)) \<Rightarrow>
          if \<not> truthy (githubAccessToken user)
          then \<lparr>response = Json 400 (message ''GitHub account not connected''),
                store = db, effects = []\<rparr>
          else (case fetch_repos e (githubAccessToken user) of
                  Inl err \<Rightarrow>
                    \<lparr>response = repositories_failure err, store = db,
                     effects = [Outbound repos_url]\<rparr>
                | Inr data \<Rightarrow>
                    (case js_map repo_summary data of
                       Inl err \<Rightarrow>
                         \<lparr>response = repositories_failure err, store = db,
                          effects = [Outbound repos_url]\<rparr>
                     | Inr repos \<Rightarrow>
                         \<lparr>response = Json 200 (JObj
                            [(js ''success'', JBool True), (js ''repositories'', repos)]),
                          store = db, effects = [Outbound repos_url]\<rparr>)))"

section \<open>The state parameter\<close>

subsection \<open>\<open>JSON.stringify({ userId: id })\<close>\<close>

text \<open>
  \<open>req.user.id\<close> is the string form of the document's id. \<open>JSON.stringify\<close> writes
  a string between double quotes; it escapes the quote, the backslash and the control
  characters, writes a surrogate that has no partner as \<open>\uXXXX\<close>, and copies every other
  code unit.
\<close>

definition hex_digit :: "nat \<Rightarrow> 16 word" where
  "hex_digit d = of_nat (if d < 10 then 48 + d else 87 + d)"

definition unicode_escape :: "nat \<Rightarrow> jsstring" where
  "unicode_escape n =
     [0x5C, 0x75, hex_digit (n div 4096), hex_digit (n div 256 mod 16),
      hex_digit (n div 16 mod 16), hex_digit (n mod 16)]"

definition is_high_surrogate :: "16 word \<Rightarrow> bool" where
  "is_high_surrogate u \<longleftrightarrow> 0xD800 \<le> unat u \<and> unat u < 0xDC00"

definition is_low_surrogate :: "16 word \<Rightarrow> bool" where
  "is_low_surrogate u \<longleftrightarrow> 0xDC00 \<le> unat u \<and> unat u < 0xE000"

fun json_quote_body :: "jsstring \<Rightarrow> jsstring" where
  "json_quote_body [] = []"
| "json_quote_body (u # us) =
     (if u = 0x08 then [0x5C, 0x62] @ json_quote_body us
      else if u = 0x09 then [0x5C, 0x74] @ json_quote_body us
      else if u = 0x0A then [0x5C, 0x6E] @ json_quote_body us
      else if u = 0x0C then [0x5C, 0x66] @ json_quote_body us
      else if u = 0x0D then [0x5C, 0x72] @ json_quote_body us
      else if u = 0x22 then [0x5C, 0x22] @ json_quote_body us
      else if u = 0x5C then [0x5C, 0x5C] @ json_quote_body us
      else if unat u < 0x20 then unicode_escape (unat u) @ json_quote_body us
      else if is_high_surrogate u then
        (case us of
           [] \<Rightarrow> unicode_escape (unat u)
         | v # vs \<Rightarrow>
             if is_low_surrogate v then u # v # json_quote_body vs
             else unicode_escape (unat u) @ json_quote_body us)
      else if is_low_surrogate u then unicode_escape (unat u) @ json_quote_body us
      else u # json_quote_body us)"

definition stringify_state :: "jsstring \<Rightarrow> jsstring" where
  "stringify_state uid =
     js ''{'' @ [0x22] @ js ''userId'' @ [0x22] @ js '':'' @
     [0x22] @ json_quote_body uid @ [0x22] @ js ''}''"

subsection \<open>\<open>Buffer.from(text)\<close> and \<open>buffer.toString()\<close>: UTF-8\<close>

text \<open>
  A buffer is a list of bytes, each below 256. Encoding joins a surrogate pair into one
  code point of four bytes and writes a surrogate without partner as U+FFFD.
\<close>

fun utf8_encode :: "jsstring \<Rightarrow> nat list" where
  "utf8_encode [] = []"
| "utf8_encode (u # us) =
     (if unat u < 0x80 then unat u # utf8_encode us
      else if unat u < 0x800 then
        [0xC0 + unat u div 64, 0x80 + unat u mod 64] @ utf8_encode us
      else if is_high_surrogate u then
        (case us of
           [] \<Rightarrow> [0xEF, 0xBF, 0xBD]
         | v # vs \<Rightarrow>
             if is_low_surrogate v then
               [0xF0 + (0x10000 + (unat u - 0xD800) * 0x400 + (unat v - 0xDC00)) div 262144,
                0x80 + (0x10000 + (unat u - 0xD800) * 0x400 + (unat v - 0xDC00)) div 4096 mod 64,
                0x80 + (0x10000 + (unat u - 0xD800) * 0x400 + (unat v - 0xDC00)) div 64 mod 64,
                0x80 + (0x10000 + (unat u - 0xD800) * 0x400 + (unat v - 0xDC00)) mod 64]
               @ utf8_encode vs
             else [0xEF, 0xBF, 0xBD] @ utf8_encode us)
      else if is_low_surrogate u then [0xEF, 0xBF, 0xBD] @ utf8_encode us
      else [0xE0 + unat u div 4096, 0x80 + unat u div 64 mod 64, 0x80 + unat u mod 64]
           @ utf8_encode us)"

text \<open>
  Decoding never fails: every maximal ill-formed part of the input becomes one U+FFFD.
  The state is the number of continuation bytes still needed, the code point so far, and
  the range allowed for the next byte.
\<close>

type_synonym utf8_state = "nat \<times> nat \<times> nat \<times> nat"

definition utf8_init :: utf8_state where
  "utf8_init = (0, 0, 0x80, 0xBF)"

definition utf8_units :: "nat \<Rightarrow> jsstring" where
  "utf8_units cp =
     (if cp < 0x10000 then [of_nat cp]
      else [of_nat (0xD800 + (cp - 0x10000) div 0x400),
            of_nat (0xDC00 + (cp - 0x10000) mod 0x400)])"

definition utf8_start :: "nat \<Rightarrow> jsstring \<times> utf8_state" where
  "utf8_start b =
     (if b < 0x80 then ([of_nat b], utf8_init)
      else if 0xC2 \<le> b \<and> b \<le> 0xDF then ([], (1, b mod 32, 0x80, 0xBF))
      else if 0xE0 \<le> b \<and> b \<le> 0xEF then
        ([], (2, b mod 16, if b = 0xE0 then 0xA0 else 0x80, if b = 0xED then 0x9F else 0xBF))
      else if 0xF0 \<le> b \<and> b \<le> 0xF4 then
        ([], (3, b mod 8, if b = 0xF0 then 0x90 else 0x80, if b = 0xF4 then 0x8F else 0xBF))
      else ([0xFFFD], utf8_init))"

definition utf8_step :: "utf8_state \<Rightarrow> nat \<Rightarrow> jsstring \<times> utf8_state" where
  "utf8_step st b =
     (case st of (needed, cp, lo, hi) \<Rightarrow>
        if needed = 0 then utf8_start b
        else if b < lo \<or> hi < b then
          (case utf8_start b of (out, st') \<Rightarrow> (0xFFFD # out, st'))
        else if needed = 1 then (utf8_units (cp * 64 + b mod 64), utf8_init)
        else ([], (needed - 1, cp * 64 + b mod 64, 0x80, 0xBF)))"

fun utf8_run :: "utf8_state \<Rightarrow> nat list \<Rightarrow> jsstring" where
  "utf8_run st [] = (if fst st = 0 then [] else [0xFFFD])"
| "utf8_run st (b # bs) = (case utf8_step st b of (out, st') \<Rightarrow> out @ utf8_run st' bs)"

definition utf8_decode :: "nat list \<Rightarrow> jsstring" where
  "utf8_decode bs = utf8_run utf8_init bs"

subsection \<open>\<open>buffer.toString('base64')\<close> and \<open>Buffer.from(text, 'base64')\<close>\<close>

definition b64_alphabet :: string where
  "b64_alphabet = ''ABCDEFGHIJKLMNOPQRSTUVWXYZabcdefghijklmnopqrstuvwxyz0123456789+/''"

definition b64_char :: "nat \<Rightarrow> 16 word" where
  "b64_char n = of_char (b64_alphabet ! n)"

fun base64_encode :: "nat list \<Rightarrow> jsstring" where
  "base64_encode [] = []"
| "base64_encode [a] = [b64_char (a div 4), b64_char (a mod 4 * 16), 0x3D, 0x3D]"
| "base64_encode [a, b] =
     [b64_char (a div 4), b64_char (a mod 4 * 16 + b div 16), b64_char (b mod 16 * 4), 0x3D]"
| "base64_encode (a # b # c # rest) =
     [b64_char (a div 4), b64_char (a mod 4 * 16 + b div 16),
      b64_char (b mod 16 * 4 + c div 64), b64_char (c mod 64)] @ base64_encode rest"

text \<open>
  The decoder of the runtime is lenient and never raises: it looks at the low byte of each
  code unit, accepts the URL-safe alphabet as well, skips every character that is not
  in the alphabet, and stops at the first \<open>=\<close>. Two characters left at the end give one
  byte, three give two.
\<close>

definition unbase64 :: "16 word \<Rightarrow> nat option" where
  "unbase64 c =
     (let n = unat c mod 256 in
      if 65 \<le> n \<and> n \<le> 90 then Some (n - 65)
      else if 97 \<le> n \<and> n \<le> 122 then Some (n - 71)
      else if 48 \<le> n \<and> n \<le> 57 then Some (n + 4)
      else if n = 43 \<or> n = 45 then Some 62
      else if n = 47 \<or> n = 95 then Some 63
      else None)"

fun b64_sextets :: "jsstring \<Rightarrow> nat list" where
  "b64_sextets [] = []"
| "b64_sextets (c # cs) =
     (case unbase64 c of
        Some v \<Rightarrow> v # b64_sextets cs
      | None \<Rightarrow> if unat c mod 256 = 61 then [] else b64_sextets cs)"

fun b64_bytes :: "nat list \<Rightarrow> nat list" where
  "b64_bytes (a # b # c # d # rest) =
     [a * 4 + b div 16, b mod 16 * 16 + c div 4, c mod 4 * 64 + d] @ b64_bytes rest"
| "b64_bytes [a, b, c] = [a * 4 + b div 16, b mod 16 * 16 + c div 4]"
| "b64_bytes [a, b] = [a * 4 + b div 16]"
| "b64_bytes [a] = []"
| "b64_bytes [] = []"

definition base64_decode :: "jsstring \<Rightarrow> nat list" where
  "base64_decode s = b64_bytes (b64_sextets s)"

subsection \<open>\<open>JSON.parse\<close>\<close>

definition is_ws :: "16 word \<Rightarrow> bool" where
  "is_ws c \<longleftrightarrow> c = 0x20 \<or> c = 0x09 \<or> c = 0x0A \<or> c = 0x0D"

definition skip_ws :: "jsstring \<Rightarrow> jsstring" where
  "skip_ws cs = dropWhile is_ws cs"

definition is_digit :: "16 word \<Rightarrow> bool" where
  "is_digit c \<longleftrightarrow> 0x30 \<le> unat c \<and> unat c \<le> 0x39"

definition hex_value :: "16 word \<Rightarrow> nat option" where
  "hex_value c =
     (let n = unat c in
      if 0x30 \<le> n \<and> n \<le> 0x39 then Some (n - 0x30)
      else if 0x41 \<le> n \<and> n \<le> 0x46 then Some (n - 0x37)
      else if 0x61 \<le> n \<and> n \<le> 0x66 then Some (n - 0x57)
      else None)"

definition hex4_value :: "16 word \<Rightarrow> 16 word \<Rightarrow> 16 word \<Rightarrow> 16 word \<Rightarrow> nat option" where
  "hex4_value a b c d =
     (case (hex_value a, hex_value b, hex_value c, hex_value d) of
        (Some w, Some x, Some y, Some z) \<Rightarrow> Some (w * 4096 + x * 256 + y * 16 + z)
      | _ \<Rightarrow> None)"

definition unescape :: "16 word \<Rightarrow> 16 word option" where
  "unescape e =
     (if e = 0x22 then Some 0x22
      else if e = 0x5C then Some 0x5C
      else if e = 0x2F then Some 0x2F
      else if e = 0x62 then Some 0x08
      else if e = 0x66 then Some 0x0C
      else if e = 0x6E then Some 0x0A
      else if e = 0x72 then Some 0x0D
      else if e = 0x74 then Some 0x09
      else None)"

definition cons_result :: "16 word \<Rightarrow> (jsstring \<times> jsstring) option \<Rightarrow> (jsstring \<times> jsstring) option" where
  "cons_result c r = (case r of None \<Rightarrow> None | Some (s, rest) \<Rightarrow> Some (c # s, rest))"

text \<open>The characters of a string after its opening quote, up to the closing one.\<close>

fun parse_chars :: "jsstring \<Rightarrow> (jsstring \<times> jsstring) option" where
  "parse_chars [] = None"
| "parse_chars (c # cs) =
     (if c = 0x22 then Some ([], cs)
      else if c = 0x5C then
        (case cs of
           [] \<Rightarrow> None
         | e # es \<Rightarrow>
             if e = 0x75 then
               (case es of
                  h1 # h2 # h3 # h4 # r \<Rightarrow>
                    (case hex4_value h1 h2 h3 h4 of
                       None \<Rightarrow> None
                     | Some v \<Rightarrow> cons_result (of_nat v) (parse_chars r))
                | _ \<Rightarrow> None)
             else
               (case unescape e of
                  None \<Rightarrow> None
                | Some x \<Rightarrow> cons_result x (parse_chars es)))
      else if unat c < 0x20 then None
      else cons_result c (parse_chars cs))"

definition digits_value :: "jsstring \<Rightarrow> nat" where
  "digits_value ds = foldl (\<lambda>acc d. acc * 10 + (unat d - 0x30)) 0 ds"

text \<open>
  A number: an optional minus, \<open>0\<close> or a digit sequence without leading zero, an optional
  fraction, an optional exponent.
\<close>

definition parse_int_part :: "jsstring \<Rightarrow> (jsstring \<times> jsstring) option" where
  "parse_int_part cs =
     (case cs of
        [] \<Rightarrow> None
      | c # r \<Rightarrow>
          if c = 0x30 then Some ([c], r)
          else if is_digit c then Some (takeWhile is_digit cs, dropWhile is_digit cs)
          else None)"

definition parse_frac_part :: "jsstring \<Rightarrow> (jsstring \<times> jsstring) option" where
  "parse_frac_part cs =
     (case cs of
        c # r \<Rightarrow>
          if c = 0x2E then
            (if takeWhile is_digit r = [] then None
             else Some (takeWhile is_digit r, dropWhile is_digit r))
          else Some ([], cs)
      | [] \<Rightarrow> Some ([], cs))"

definition parse_exp_part :: "jsstring \<Rightarrow> (int \<times> jsstring) option" where
  "parse_exp_part cs =
     (case cs of
        c # r \<Rightarrow>
          if c = 0x65 \<or> c = 0x45 then
            (case r of
               s # r' \<Rightarrow>
                 if s = 0x2D then
                   (if takeWhile is_digit r' = [] then None
                    else Some (- int (digits_value (takeWhile is_digit r')), dropWhile is_digit r'))
                 else if s = 0x2B then
                   (if takeWhile is_digit r' = [] then None
                    else Some (int (digits_value (takeWhile is_digit r')), dropWhile is_digit r'))
                 else
                   (if takeWhile is_digit r = [] then None
                    else Some (int (digits_value (takeWhile is_digit r)), dropWhile is_digit r))
             | [] \<Rightarrow> None)
          else Some (0, cs)
      | [] \<Rightarrow> Some (0, cs))"

definition number_value :: "bool \<Rightarrow> jsstring \<Rightarrow> jsstring \<Rightarrow> int \<Rightarrow> rat" where
  "number_value neg ds fs ex =
     (if neg then - 1 else 1) *
     (of_nat (digits_value ds) + of_nat (digits_value fs) / 10 ^ length fs) *
     (if 0 \<le> ex then 10 ^ nat ex else 1 / 10 ^ nat (- ex))"

definition parse_unsigned :: "bool \<Rightarrow> jsstring \<Rightarrow> (rat \<times> jsstring) option" where
  "parse_unsigned neg cs =
     (case parse_int_part cs of
        None \<Rightarrow> None
      | Some (ds, r1) \<Rightarrow>
          (case parse_frac_part r1 of
             None \<Rightarrow> None
           | Some (fs, r2) \<Rightarrow>
               (case parse_exp_part r2 of
                  None \<Rightarrow> None
                | Some (ex, r3) \<Rightarrow> Some (number_value neg ds fs ex, r3))))"

definition parse_number :: "jsstring \<Rightarrow> (rat \<times> jsstring) option" where
  "parse_number cs =
     (case cs of
        [] \<Rightarrow> None
      | c # r \<Rightarrow> if c = 0x2D then parse_unsigned True r else parse_unsigned False cs)"

text \<open>
  Values. The first argument bounds the depth of the recursion; \<open>json_parse\<close> starts with
  a bound that is never reached (lemma \<open>parse_value_fuel\<close> below). A repeated key
  overwrites the earlier value in place.
\<close>

datatype 'a presult = OutOfFuel | Reject | Accept 'a jsstring

fun parse_value :: "nat \<Rightarrow> jsstring \<Rightarrow> jsval presult"
  and parse_elements :: "nat \<Rightarrow> jsval list \<Rightarrow> jsstring \<Rightarrow> jsval presult"
  and parse_members :: "nat \<Rightarrow> (jsstring \<times> jsval) list \<Rightarrow> jsstring \<Rightarrow> jsval presult"
where
  "parse_value 0 cs = OutOfFuel"
| "parse_value (Suc n) cs =
     (case skip_ws cs of
        [] \<Rightarrow> Reject
      | c # r \<Rightarrow>
          if c = 0x7B then
            (case skip_ws r of
               [] \<Rightarrow> Reject
             | d # r' \<Rightarrow> if d = 0x7D then Accept (JObj []) r' else parse_members n [] r)
          else if c = 0x5B then
            (case skip_ws r of
               [] \<Rightarrow> Reject
             | d # r' \<Rightarrow> if d = 0x5D then Accept (JArr []) r' else parse_elements n [] r)
          else if c = 0x22 then
            (case parse_chars r of None \<Rightarrow> Reject | Some (s, r') \<Rightarrow> Accept (JStr s) r')
          else if take 4 (c # r) = js ''true'' then Accept (JBool True) (drop 4 (c # r))
          else if take 5 (c # r) = js ''false'' then Accept (JBool False) (drop 5 (c # r))
          else if take 4 (c # r) = js ''null'' then Accept JNull (drop 4 (c # r))
          else
            (case parse_number (c # r) of
               None \<Rightarrow> Reject
             | Some (q, r') \<Rightarrow> Accept (JNum q) r'))"
| "parse_elements 0 acc cs = OutOfFuel"
| "parse_elements (Suc n) acc cs =
     (case parse_value n cs of
        OutOfFuel \<Rightarrow> OutOfFuel
      | Reject \<Rightarrow> Reject
      | Accept v r \<Rightarrow>
          (case skip_ws r of
             [] \<Rightarrow> Reject
           | d # r' \<Rightarrow>
               if d = 0x2C then parse_elements n (acc @ [v]) r'
               else if d = 0x5D then Accept (JArr (acc @ [v])) r'
               else Reject))"
| "parse_members 0 acc cs = OutOfFuel"
| "parse_members (Suc n) acc cs =
     (case skip_ws cs of
        [] \<Rightarrow> Reject
      | c # r \<Rightarrow>
          if c \<noteq> 0x22 then Reject
          else
            (case parse_chars r of
               None \<Rightarrow> Reject
             | Some (k, r1) \<Rightarrow>
                 (case skip_ws r1 of
                    [] \<Rightarrow> Reject
                  | d # r2 \<Rightarrow>
                      if d \<noteq> 0x3A then Reject
                      else
                        (case parse_value n r2 of
                           OutOfFuel \<Rightarrow> OutOfFuel
                         | Reject \<Rightarrow> Reject
                         | Accept v r3 \<Rightarrow>
                             (case skip_ws r3 of
                                [] \<Rightarrow> Reject
                              | x # r4 \<Rightarrow>
                                  if x = 0x2C then parse_members n (AList.update k v acc) r4
                                  else if x = 0x7D then Accept (JObj (AList.update k v acc)) r4
                                  else Reject)))))"

definition json_parse :: "jsstring \<Rightarrow> exn + jsval" where
  "json_parse s =
     (case parse_value (2 * length s + 1) s of
        Accept v r \<Rightarrow> if skip_ws r = [] then Inr v else Inl SyntaxError
      | _ \<Rightarrow> Inl SyntaxError)"

subsection \<open>Writing and reading the state\<close>

definition encode_state :: "jsstring \<Rightarrow> jsstring" where
  "encode_state uid = base64_encode (utf8_encode (stringify_state uid))"

definition decode_state :: "jsstring \<Rightarrow> exn + jsval" where
  "decode_state state = json_parse (utf8_decode (base64_decode state))"

section \<open>GET /auth\<close>

text \<open>Lines 16 to 61.\<close>

text \<open>
  The middleware \<open>authFromQuery\<close>: it answers 401 itself, or passes the caller's document
  on (here: its id, the only part the handler reads).
\<close>

definition present :: "jsstring option \<Rightarrow> bool" where
  "present p = (case p of None \<Rightarrow> False | Some s \<Rightarrow> s \<noteq> [])"

definition authFromQuery :: "env \<Rightarrow> 'a store \<Rightarrow> jsstring option \<Rightarrow> response + jsstring" where
  "authFromQuery e db token =
     (case token of
        None \<Rightarrow> Inl (Json 401 (message ''No token, authorization denied''))
      | Some t \<Rightarrow>
          if t = [] then Inl (Json 401 (message ''No token, authorization denied''))
          else
            (case jwt_verify e t of
               Inl err \<Rightarrow> Inl (Json 401 (message ''Token is not valid''))
             | Inr decoded \<Rightarrow>
                 (case get_prop decoded (js ''id'') of
                    Inl err \<Rightarrow> Inl (Json 401 (message ''Token is not valid''))
                  | Inr v \<Rightarrow>
                      (case findById e db v of
                         Inl err \<Rightarrow> Inl (Json 401 (message ''Token is not valid''))
                       | Inr None \<Rightarrow> Inl (Json 401 (message ''Token is not valid''))
                       | Inr (Some (i, u)) \<Rightarrow> Inr i))))"

definition github_callback_url :: string where
  "github_callback_url = ''http://localhost:5000/api/github/callback''"

definition frontend_success_url :: string where
  "frontend_success_url = ''http://localhost:5173/dashboard?github=connected''"

definition frontend_error_url :: string where
  "frontend_error_url = ''http://localhost:5173/dashboard?github=error''"

text \<open>\<open>encodeURIComponent\<close> on an ASCII string.\<close>

definition uri_unreserved :: "char \<Rightarrow> bool" where
  "uri_unreserved c \<longleftrightarrow>
     (let n = (of_char c :: nat) in
      (65 \<le> n \<and> n \<le> 90) \<or> (97 \<le> n \<and> n \<le> 122) \<or> (48 \<le> n \<and> n \<le> 57)
      \<or> c \<in> set ''-_.!~*()'' \<or> n = 39)"

definition upper_hex :: "nat \<Rightarrow> char" where
  "upper_hex d = char_of (if d < 10 then 48 + d else 55 + d)"

definition encodeURIComponent :: "string \<Rightarrow> string" where
  "encodeURIComponent s =
     concat (map (\<lambda>c. if uri_unreserved c then [c]
                       else [CHR ''%'', upper_hex (of_char c div 16), upper_hex (of_char c mod 16)]) s)"

definition auth_redirect :: "env \<Rightarrow> jsstring \<Rightarrow> response" where
  "auth_redirect e uid =
     (case client_id e of
        None \<Rightarrow> Json 500 (message ''GitHub OAuth not configured'')
      | Some cid \<Rightarrow>
          if cid = [] then Json 500 (message ''GitHub OAuth not configured'')
          else Redirect
            (js ''https://github.com/login/oauth/authorize?'' @
             js ''client_id='' @ cid @ js ''&'' @
             js ''redirect_uri='' @ js (encodeURIComponent github_callback_url) @ js ''&'' @
             js ''scope=repo&'' @
             js ''state='' @ encode_state uid))"

definition auth :: "env \<Rightarrow> 'a store \<Rightarrow> jsstring option \<Rightarrow> 'a outcome" where
  "auth e db token =
     (case authFromQuery e db token of
        Inl denied \<Rightarrow> \<lparr>response = denied, store = db, effects = []\<rparr>
      | Inr uid \<Rightarrow> \<lparr>response = auth_redirect e uid, store = db, effects = []\<rparr>)"

section \<open>GET /callback\<close>

text \<open>
  Lines 66 to 155. The query parameters are strings or absent. The handler is one
  \<open>try\<close> block whose \<open>catch\<close> answers \<open>server_error\<close>; only \<open>JSON.parse\<close>
  sits in a \<open>try\<close> of its own. Every answer is a redirect.
\<close>

record query =
  q_code :: "jsstring option"
  q_state :: "jsstring option"
  q_error :: "jsstring option"

datatype reason =
    OauthDenied | MissingParams | InvalidState | TokenExchangeFailed
  | ProfileFetchFailed | UserNotFound | ServerError

fun reason_code :: "reason \<Rightarrow> string" where
  "reason_code OauthDenied = ''oauth_denied''"
| "reason_code MissingParams = ''missing_params''"
| "reason_code InvalidState = ''invalid_state''"
| "reason_code TokenExchangeFailed = ''token_exchange_failed''"
| "reason_code ProfileFetchFailed = ''profile_fetch_failed''"
| "reason_code UserNotFound = ''user_not_found''"
| "reason_code ServerError = ''server_error''"

definition failure :: "reason \<Rightarrow> response" where
  "failure r = Redirect (js (frontend_error_url @ ''&reason='' @ reason_code r))"

definition success :: response where
  "success = Redirect (js frontend_success_url)"

definition token_url :: string where
  "token_url = ''https://github.com/login/oauth/access_token''"

definition profile_url :: string where
  "profile_url = ''https://api.github.com/user''"

definition failed :: "reason \<Rightarrow> 'a store \<Rightarrow> effect list \<Rightarrow> 'a outcome" where
  "failed r db done = \<lparr>response = failure r, store = db, effects = done\<rparr>"

definition callback :: "env \<Rightarrow> 'a store \<Rightarrow> query \<Rightarrow> 'a outcome" where
  "callback e db q =
     (if present (q_error q) then failed OauthDenied db []
      else if \<not> present (q_code q) \<or> \<not> present (q_state q) then failed MissingParams db []
      else
        (case (q_code q, q_state q) of
           (Some code, Some state) \<Rightarrow>
             (case decode_state state of
                Inl err \<Rightarrow> failed InvalidState db []
              | Inr decodedState \<Rightarrow>
             (case get_prop decodedState (js ''userId'') of
                Inl err \<Rightarrow> failed ServerError db []
              | Inr userId \<Rightarrow>
             if \<not> truthy userId then failed InvalidState db []
             else
             (case token_exchange e code of
                Inl err \<Rightarrow> failed ServerError db [Outbound token_url]
              | Inr data \<Rightarrow>
             (case get_prop data (js ''access_token'') of
                Inl err \<Rightarrow> failed ServerError db [Outbound token_url]
              | Inr access_token \<Rightarrow>
             if truthy (field data (js ''error'')) \<or> \<not> truthy access_token
             then failed TokenExchangeFailed db [Outbound token_url]
             else
             (case fetch_profile e access_token of
                Inl err \<Rightarrow> failed ServerError db [Outbound token_url, Outbound profile_url]
              | Inr githubUser \<Rightarrow>
             (case get_prop githubUser (js ''login'') of
                Inl err \<Rightarrow> failed ServerError db [Outbound token_url, Outbound profile_url]
              | Inr login \<Rightarrow>
             if \<not> truthy login
             then failed ProfileFetchFailed db [Outbound token_url, Outbound profile_url]
             else
             (case findById e db userId of
                Inl err \<Rightarrow> failed ServerError db [Outbound token_url, Outbound profile_url]
              | Inr None \<Rightarrow> failed UserNotFound db [Outbound token_url, Outbound profile_url]
              | Inr (Some (i, u)) \<Rightarrow>
                  (let user = (select_default u)
                         \<lparr>githubAccessToken := access_token,
                          githubUsername := login,
                          githubId := field githubUser (js ''id''),
                          githubProfileUrl := field githubUser (js ''html_url''),
                          githubConnectedAt := JDate (now e)\<rparr>;
                       done =
                         [Outbound token_url, Outbound profile_url,
                          Assign GithubAccessToken access_token,
                          Assign GithubUsername login,
                          Assign GithubId (field githubUser (js ''id'')),
                          Assign GithubProfileUrl (field githubUser (js ''html_url'')),
                          Assign GithubConnectedAt (JDate (now e)),
                          SaveCall i]
                   in case save e db i user of
                        Inl err \<Rightarrow> failed ServerError db done
                      | Inr db' \<Rightarrow>
                          \<lparr>response = success, store = db', effects = done\<rparr>))))))))
         | _ \<Rightarrow> failed MissingParams db []))"

section \<open>The service\<close>

text \<open>
  The five routes of the router. The routes behind the middleware \<open>auth\<close> (which is not
  among the sources) are entered with the id of the caller it has resolved.
\<close>

datatype request =
    GetAuth "jsstring option"
  | GetCallback query
  | GetStatus jsstring
  | PostDisconnect jsstring
  | GetRepositories jsstring

fun handle :: "env \<Rightarrow> 'a store \<Rightarrow> request \<Rightarrow> 'a outcome" where
  "handle e db (GetAuth token) = auth e db token"
| "handle e db (GetCallback q) = callback e db q"
| "handle e db (GetStatus uid) = status e db uid"
| "handle e db (PostDisconnect uid) = disconnect e db uid"
| "handle e db (GetRepositories uid) = repositories e db uid"

section \<open>Properties of user documents\<close>

text \<open>
  A linkage field is set when it holds a truthy value, which is the test the handlers
  themselves apply (\<open>!!user.githubUsername\<close>, \<open>!user.githubAccessToken\<close>), and
  cleared when it does not. \<open>disconnect\<close> clears a field by assigning \<open>undefined\<close>,
  which makes it absent.
\<close>

definition all_set :: "'a user_scheme \<Rightarrow> bool" where
  "all_set u \<longleftrightarrow>
     truthy (githubAccessToken u) \<and> truthy (githubUsername u) \<and> truthy (githubId u) \<and>
     truthy (githubProfileUrl u) \<and> truthy (githubConnectedAt u)"

definition all_cleared :: "'a user_scheme \<Rightarrow> bool" where
  "all_cleared u \<longleftrightarrow>
     \<not> truthy (githubAccessToken u) \<and> \<not> truthy (githubUsername u) \<and>
     \<not> truthy (githubId u) \<and> \<not> truthy (githubProfileUrl u) \<and>
     \<not> truthy (githubConnectedAt u)"

definition all_absent :: "'a user_scheme \<Rightarrow> bool" where
  "all_absent u \<longleftrightarrow>
     githubAccessToken u = JUndefined \<and> githubUsername u = JUndefined \<and>
     githubId u = JUndefined \<and> githubProfileUrl u = JUndefined \<and>
     githubConnectedAt u = JUndefined"

definition linkage_inv :: "'a store \<Rightarrow> bool" where
  "linkage_inv db \<longleftrightarrow> (\<forall>uid u. db uid = Some u \<longrightarrow> all_set u \<or> all_cleared u)"

text \<open>
  The contract of GitHub's profile endpoint: a profile with a \<open>login\<close> has an \<open>id\<close> and
  an \<open>html_url\<close>.
\<close>

definition profile_contract :: "env \<Rightarrow> bool" where
  "profile_contract e \<longleftrightarrow>
     (\<forall>tok p. fetch_profile e tok = Inr p \<and> truthy (field p (js ''login'')) \<longrightarrow>
        truthy (field p (js ''id'')) \<and> truthy (field p (js ''html_url'')))"

section \<open>Properties of repository summaries\<close>

text \<open>
  The fields of a summary as the specification lists them: each name of the summary with
  the name of the raw entry it is read from.
\<close>

definition spec_summary_fields :: "(jsstring \<times> jsstring) list" where
  "spec_summary_fields =
     [(js ''id'', js ''id''),
      (js ''name'', js ''name''),
      (js ''fullName'', js ''full_name''),
      (js ''description'', js ''description''),
      (js ''private'', js ''private''),
      (js ''htmlUrl'', js ''html_url''),
      (js ''language'', js ''language''),
      (js ''updatedAt'', js ''updated_at''),
      (js ''stargazersCount'', js ''stargazers_count''),
      (js ''forksCount'', js ''forks_count'')]"

text \<open>
  \<open>res.json\<close> writes its argument with \<open>JSON.stringify\<close>, which leaves out every
  property of an object whose value is \<open>undefined\<close>: these are the properties of an
  object that reach the reply.
\<close>

definition sent_properties :: "jsval \<Rightarrow> (jsstring \<times> jsval) list" where
  "sent_properties v =
     (case v of JObj kvs \<Rightarrow> filter (\<lambda>(k, x). x \<noteq> JUndefined) kvs | _ \<Rightarrow> [])"

text \<open>A string in which every surrogate is half of a pair.\<close>

fun well_formed :: "jsstring \<Rightarrow> bool" where
  "well_formed [] = True"
| "well_formed (u # us) =
     (if is_high_surrogate u then
        (case us of [] \<Rightarrow> False | v # vs \<Rightarrow> is_low_surrogate v \<and> well_formed vs)
      else \<not> is_low_surrogate u \<and> well_formed us)"

section \<open>Sample data\<close>

definition profile_octo :: jsval where
  "profile_octo = JObj
     [(js ''login'', JStr (js ''octo'')), (js ''id'', JNum 1),
      (js ''html_url'', JStr (js ''https://github.com/octo''))]"

definition repos_two :: "jsval list" where
  "repos_two =
     [JObj [(js ''id'', JNum 7), (js ''name'', JStr (js ''echo'')),
            (js ''full_name'', JStr (js ''octo/echo''))],
      JObj [(js ''id'', JNum 8), (js ''private'', JBool True)]]"

definition env_ok :: env where
  "env_ok =
     \<lparr>client_id = Some (js ''client''),
      jwt_verify = (\<lambda>t. Inl SyntaxError),
      token_exchange = (\<lambda>c. Inr (JObj [(js ''access_token'', JStr (js ''tok''))])),
      fetch_profile = (\<lambda>t. Inr profile_octo),
      fetch_repos = (\<lambda>t. Inr (JArr repos_two)),
      find_fault = (\<lambda>v. False),
      save_fault = False,
      now = 1000\<rparr>"

definition user_unlinked :: user where
  "user_unlinked =
     \<lparr>githubAccessToken = JUndefined, githubUsername = JUndefined, githubId = JUndefined,
      githubProfileUrl = JUndefined, githubConnectedAt = JUndefined\<rparr>"

definition user_linked :: user where
  "user_linked =
     \<lparr>githubAccessToken = JStr (js ''tok''), githubUsername = JStr (js ''octo''),
      githubId = JNum 1, githubProfileUrl = JStr (js ''https://github.com/octo''),
      githubConnectedAt = JDate 1000\<rparr>"

text \<open>The state \<open>eyJ1c2VySWQiOiJ1MSJ9\<close> is the base64 form of \<open>{"userId":"u1"}\<close>.\<close>

definition query_u1 :: query where
  "query_u1 =
     \<lparr>q_code = Some (js ''abc''), q_state = Some (js ''eyJ1c2VySWQiOiJ1MSJ9''),
      q_error = None\<rparr>"

definition env_login_only :: env where
  "env_login_only =
     env_ok\<lparr>fetch_profile := (\<lambda>t. Inr (JObj [(js ''login'', JStr (js ''octo''))]))\<rparr>"

definition user_partial :: user where
  "user_partial =
     \<lparr>githubAccessToken = JStr (js ''tok''), githubUsername = JStr (js ''octo''),
      githubId = JUndefined, githubProfileUrl = JUndefined,
      githubConnectedAt = JDate 1000\<rparr>"

definition env_store_down :: env where
  "env_store_down = env_ok\<lparr>save_fault := True\<rparr>"

definition env_exchange_store_down :: env where
  "env_exchange_store_down = env_store_down\<lparr>token_exchange := (\<lambda>c. Inl (HttpError None))\<rparr>"

definition query_no_state :: query where
  "query_no_state = \<lparr>q_code = Some (js ''abc''), q_state = None, q_error = None\<rparr>"






definition no_users :: "unit store" where
  "no_users = Map.empty"

definition env_repos_null :: env where
  "env_repos_null = env_ok\<lparr>fetch_repos := (\<lambda>t. Inr (JArr [JNull]))\<rparr>"

section \<open>Lemmas\<close>

lemma unat_of_char [simp]: "unat (of_char c :: 16 word) = of_char c"
proof -
  have "(of_char c :: 16 word) = of_nat (of_char c)"
    by (simp only: of_nat_of_char)
  then have "unat (of_char c :: 16 word) = (of_char c :: nat) mod 2 ^ LENGTH(16)"
    by (simp only: unat_of_nat)
  moreover have "(of_char c :: nat) < 2 ^ LENGTH(16)"
    by (rule order_less_trans [OF nat_of_char_less_256]) simp
  ultimately show ?thesis by simp
qed

lemma unat_unit_less: "unat (u :: 16 word) < 65536"
  using unsigned_less [of u, where 'a = nat] by simp

lemma unat_of_nat_unit: "n < 65536 \<Longrightarrow> unat (of_nat n :: 16 word) = n"
  by (simp add: unat_of_nat)

subsection \<open>Arithmetic of digits\<close>

lemma div_add_less: "r < d \<Longrightarrow> (q * d + r) div d = (q::nat)"
  by simp

lemma mod_add_less: "r < d \<Longrightarrow> (q * d + r) mod d = (r::nat)"
  by simp

lemma hex_digits_sum:
  "n div 4096 * 4096 + n div 256 mod 16 * 256 + n div 16 mod 16 * 16 + n mod 16 = (n::nat)"
proof -
  define m1 where "m1 = n div 16"
  define m2 where "m2 = m1 div 16"
  define m3 where "m3 = m2 div 16"
  have d2: "n div 256 = m2"
    using div_mult2_eq [of n 16 16] by (simp add: m1_def m2_def)
  have d3: "n div 4096 = m3"
    using div_mult2_eq [of n 256 16] by (simp add: d2 m3_def)
  define r0 where "r0 = n mod 16"
  define r1 where "r1 = m1 mod 16"
  define r2 where "r2 = m2 mod 16"
  have "n = m1 * 16 + r0" "m1 = m2 * 16 + r1" "m2 = m3 * 16 + r2"
    by (simp_all add: m1_def m2_def m3_def r0_def r1_def r2_def)
  then have "m3 * 4096 + r2 * 256 + r1 * 16 + r0 = n"
    by linarith
  then show ?thesis
    by (simp add: d2 d3 r0_def r1_def r2_def m1_def)
qed

subsection \<open>base64\<close>

lemma unbase64_table: "\<forall>n\<in>set [0..<64]. unbase64 (b64_char n) = Some n"
  by code_simp

lemma unbase64_b64_char: "n < 64 \<Longrightarrow> unbase64 (b64_char n) = Some n"
  using unbase64_table by simp

lemma unbase64_pad: "unbase64 0x3D = None" "unat (0x3D :: 16 word) mod 256 = 61"
  by (simp_all add: unbase64_def)

lemma base64_roundtrip:
  "\<forall>b\<in>set bs. b < 256 \<Longrightarrow> base64_decode (base64_encode bs) = bs"
  unfolding base64_decode_def
proof (induction bs rule: base64_encode.induct)
  case 1
  show ?case by simp
next
  case (2 a)
  then have a: "a < 256" by simp
  then have "a div 4 < 64" "a mod 4 * 16 < 64" by auto
  then show ?case
    by (simp add: unbase64_b64_char unbase64_pad)
next
  case (3 a b)
  then have ab: "a < 256" "b < 256" by simp_all
  then have lt: "a div 4 < 64" "a mod 4 * 16 + b div 16 < 64" "b mod 16 * 4 < 64" by auto
  have bytes: "a div 4 * 4 + (a mod 4 * 16 + b div 16) div 16 = a"
    "(a mod 4 * 16 + b div 16) mod 16 * 16 + b mod 16 * 4 div 4 = b"
    using ab by (simp_all add: div_add_less mod_add_less)
  show ?case
    using lt bytes by (simp add: unbase64_b64_char unbase64_pad)
next
  case (4 a b c rest)
  then have abc: "a < 256" "b < 256" "c < 256" by simp_all
  then have lt: "a div 4 < 64" "a mod 4 * 16 + b div 16 < 64"
    "b mod 16 * 4 + c div 64 < 64" "c mod 64 < 64" by auto
  have bytes: "a div 4 * 4 + (a mod 4 * 16 + b div 16) div 16 = a"
    "(a mod 4 * 16 + b div 16) mod 16 * 16 + (b mod 16 * 4 + c div 64) div 4 = b"
    "(b mod 16 * 4 + c div 64) mod 4 * 64 + c mod 64 = c"
    using abc by (simp_all add: div_add_less mod_add_less)
  from 4 have "b64_bytes (b64_sextets (base64_encode rest)) = rest" by simp
  then show ?case
    using lt bytes by (simp add: unbase64_b64_char)
qed

subsection \<open>JSON strings\<close>

lemma hex_table: "\<forall>d\<in>set [0..<16]. hex_value (hex_digit d) = Some d"
  by code_simp

lemma hex_value_hex_digit: "d < 16 \<Longrightarrow> hex_value (hex_digit d) = Some d"
  using hex_table by simp

lemma hex4_value_escape:
  assumes "n < 65536"
  shows "hex4_value (hex_digit (n div 4096)) (hex_digit (n div 256 mod 16))
           (hex_digit (n div 16 mod 16)) (hex_digit (n mod 16)) = Some n"
proof -
  have "n div 4096 < 16" using assms by simp
  moreover note hex_digits_sum [of n]
  ultimately show ?thesis
    by (simp add: hex4_value_def hex_value_hex_digit)
qed

lemma parse_chars_escape:
  "parse_chars (unicode_escape (unat u) @ cs) = cons_result u (parse_chars cs)"
  using hex4_value_escape [OF unat_unit_less [of u]]
  by (simp add: unicode_escape_def)

lemma surrogate_plain:
  "is_high_surrogate u \<or> is_low_surrogate u \<Longrightarrow> u \<noteq> 0x22 \<and> u \<noteq> 0x5C \<and> \<not> unat u < 0x20"
  by (auto simp add: is_high_surrogate_def is_low_surrogate_def)

lemma parse_chars_escaped:
  "unescape e = Some x \<Longrightarrow> e \<noteq> 0x75 \<Longrightarrow>
   parse_chars (0x5C # e # cs) = cons_result x (parse_chars cs)"
  by simp

lemma parse_chars_plain:
  "c \<noteq> 0x22 \<Longrightarrow> c \<noteq> 0x5C \<Longrightarrow> \<not> unat c < 0x20 \<Longrightarrow>
   parse_chars (c # cs) = cons_result c (parse_chars cs)"
  by simp

lemma parse_chars_quote:
  "parse_chars (json_quote_body s @ 0x22 # rest) = Some (s, rest)"
proof (induction "length s" arbitrary: s rule: less_induct)
  case less
  show ?case
  proof (cases s)
    case Nil
    then show ?thesis by simp
  next
    case (Cons u us)
    have ih: "parse_chars (json_quote_body us @ 0x22 # rest) = Some (us, rest)"
      using less [of us] Cons by simp
    note esc = parse_chars_escape [of u "json_quote_body us @ 0x22 # rest"]
    consider (b) "u = 0x08" | (t) "u = 0x09" | (n) "u = 0x0A" | (f) "u = 0x0C"
      | (r) "u = 0x0D" | (q) "u = 0x22" | (s) "u = 0x5C"
      | (other) "u \<noteq> 0x08" "u \<noteq> 0x09" "u \<noteq> 0x0A" "u \<noteq> 0x0C" "u \<noteq> 0x0D"
          "u \<noteq> 0x22" "u \<noteq> 0x5C"
      by blast
    then show ?thesis
    proof cases
      case b
      have "json_quote_body s = [0x5C, 0x62] @ json_quote_body us"
        using Cons b by simp
      then show ?thesis
        using ih by (simp del: parse_chars.simps add: parse_chars_escaped unescape_def cons_result_def Cons b)
    next
      case t
      have "json_quote_body s = [0x5C, 0x74] @ json_quote_body us"
        using Cons t by simp
      then show ?thesis
        using ih by (simp del: parse_chars.simps add: parse_chars_escaped unescape_def cons_result_def Cons t)
    next
      case n
      have "json_quote_body s = [0x5C, 0x6E] @ json_quote_body us"
        using Cons n by simp
      then show ?thesis
        using ih by (simp del: parse_chars.simps add: parse_chars_escaped unescape_def cons_result_def Cons n)
    next
      case f
      have "json_quote_body s = [0x5C, 0x66] @ json_quote_body us"
        using Cons f by simp
      then show ?thesis
        using ih by (simp del: parse_chars.simps add: parse_chars_escaped unescape_def cons_result_def Cons f)
    next
      case r
      have "json_quote_body s = [0x5C, 0x72] @ json_quote_body us"
        using Cons r by simp
      then show ?thesis
        using ih by (simp del: parse_chars.simps add: parse_chars_escaped unescape_def cons_result_def Cons r)
    next
      case q
      have "json_quote_body s = [0x5C, 0x22] @ json_quote_body us"
        using Cons q by simp
      then show ?thesis
        using ih by (simp del: parse_chars.simps add: parse_chars_escaped unescape_def cons_result_def Cons q)
    next
      case s
      have "json_quote_body s = [0x5C, 0x5C] @ json_quote_body us"
        using Cons s by simp
      then show ?thesis
        using ih by (simp del: parse_chars.simps add: parse_chars_escaped unescape_def cons_result_def Cons s)
    next
      case other
      show ?thesis
      proof (cases "unat u < 0x20")
        case True
        have "json_quote_body s = unicode_escape (unat u) @ json_quote_body us"
          using Cons other True by simp
        then show ?thesis
          using ih esc by (simp del: parse_chars.simps add: cons_result_def Cons)
      next
        case plain: False
        note raw = parse_chars_plain [OF other(6) other(7) plain]
        show ?thesis
        proof (cases "is_high_surrogate u")
          case high: True
          show ?thesis
          proof (cases us)
            case Nil
            have "json_quote_body s = unicode_escape (unat u)"
              using Cons other plain high Nil by simp
            then show ?thesis
              using parse_chars_escape [of u "0x22 # rest"] Nil Cons
              by (simp add: cons_result_def)
          next
            case us: (Cons v vs)
            show ?thesis
            proof (cases "is_low_surrogate v")
              case low: True
              have ih2: "parse_chars (json_quote_body vs @ 0x22 # rest) = Some (vs, rest)"
                using less [of vs] Cons us by simp
              have "json_quote_body s = u # v # json_quote_body vs"
                using Cons other plain high us low by simp
              moreover have "v \<noteq> 0x22" "v \<noteq> 0x5C" "\<not> unat v < 0x20"
                using surrogate_plain [of v] low by simp_all
              ultimately show ?thesis
                using ih2 raw Cons us
                by (simp del: parse_chars.simps add: parse_chars_plain cons_result_def)
            next
              case False
              have "json_quote_body s = unicode_escape (unat u) @ json_quote_body us"
                using Cons other plain high us False by simp
              then show ?thesis
                using ih esc by (simp del: parse_chars.simps add: cons_result_def Cons)
            qed
          qed
        next
          case nothigh: False
          show ?thesis
          proof (cases "is_low_surrogate u")
            case True
            have "json_quote_body s = unicode_escape (unat u) @ json_quote_body us"
              using Cons other plain nothigh True by simp
            then show ?thesis
              using ih esc by (simp del: parse_chars.simps add: cons_result_def Cons)
          next
            case False
            have "json_quote_body s = u # json_quote_body us"
              using Cons other plain nothigh False by simp
            then show ?thesis
              using ih raw by (simp del: parse_chars.simps add: cons_result_def Cons)
          qed
        qed
      qed
    qed
  qed
qed

subsection \<open>UTF-8\<close>

lemma digits64_3:
  "n div 4096 * 4096 + n div 64 mod 64 * 64 + n mod 64 = (n::nat)"
proof -
  define m1 where "m1 = n div 64"
  define m2 where "m2 = m1 div 64"
  have d2: "n div 4096 = m2"
    using div_mult2_eq [of n 64 64] by (simp add: m1_def m2_def)
  define r0 where "r0 = n mod 64"
  define r1 where "r1 = m1 mod 64"
  have "n = m1 * 64 + r0" "m1 = m2 * 64 + r1"
    by (simp_all add: m1_def m2_def r0_def r1_def)
  then have "m2 * 4096 + r1 * 64 + r0 = n"
    by linarith
  then show ?thesis
    by (simp add: d2 r0_def r1_def m1_def)
qed

lemma digits64_4:
  "n div 262144 * 262144 + n div 4096 mod 64 * 4096 + n div 64 mod 64 * 64 + n mod 64 = (n::nat)"
proof -
  define m1 where "m1 = n div 64"
  define m2 where "m2 = m1 div 64"
  define m3 where "m3 = m2 div 64"
  have d2: "n div 4096 = m2"
    using div_mult2_eq [of n 64 64] by (simp add: m1_def m2_def)
  have d3: "n div 262144 = m3"
    using div_mult2_eq [of n 4096 64] by (simp add: d2 m3_def)
  define r0 where "r0 = n mod 64"
  define r1 where "r1 = m1 mod 64"
  define r2 where "r2 = m2 mod 64"
  have "n = m1 * 64 + r0" "m1 = m2 * 64 + r1" "m2 = m3 * 64 + r2"
    by (simp_all add: m1_def m2_def m3_def r0_def r1_def r2_def)
  then have "m3 * 262144 + r2 * 4096 + r1 * 64 + r0 = n"
    by linarith
  then show ?thesis
    by (simp add: d2 d3 r0_def r1_def r2_def m1_def)
qed

lemma utf8_run_1:
  "n < 0x80 \<Longrightarrow> utf8_run utf8_init (n # bs) = of_nat n # utf8_run utf8_init bs"
  by (simp add: utf8_step_def utf8_init_def utf8_start_def)

lemma utf8_run_2:
  assumes "2 \<le> q" "q < 32" "r < 64"
  shows "utf8_run utf8_init ((0xC0 + q) # (0x80 + r) # bs) =
           of_nat (q * 64 + r) # utf8_run utf8_init bs"
proof -
  have m: "(192 + q) mod 32 = q" "(128 + r) mod 64 = r"
    using mod_add_less [of q 32 6] mod_add_less [of r 64 2] assms by simp_all
  have "q * 64 + r < 65536" using assms by simp
  then show ?thesis
    using assms m
    by (simp add: utf8_step_def utf8_init_def utf8_start_def utf8_units_def)
qed

lemma utf8_run_3:
  assumes "q1 < 16" "q2 < 64" "r < 64" "q1 = 0 \<longrightarrow> 32 \<le> q2" "q1 = 13 \<longrightarrow> q2 < 32"
  shows "utf8_run utf8_init ((0xE0 + q1) # (0x80 + q2) # (0x80 + r) # bs) =
           of_nat ((q1 * 64 + q2) * 64 + r) # utf8_run utf8_init bs"
proof -
  have m: "(224 + q1) mod 16 = q1" "(128 + q2) mod 64 = q2" "(128 + r) mod 64 = r"
    using mod_add_less [of q1 16 14] mod_add_less [of q2 64 2] mod_add_less [of r 64 2] assms
    by simp_all
  have "(q1 * 64 + q2) * 64 + r < 65536" using assms by simp
  then show ?thesis
    using assms m
    by (auto simp add: utf8_step_def utf8_init_def utf8_start_def utf8_units_def)
qed

lemma utf8_run_4:
  assumes "q0 \<le> 4" "q1 < 64" "q2 < 64" "r < 64" "q0 = 0 \<longrightarrow> 16 \<le> q1" "q0 = 4 \<longrightarrow> q1 < 16"
  shows "utf8_run utf8_init ((0xF0 + q0) # (0x80 + q1) # (0x80 + q2) # (0x80 + r) # bs) =
           utf8_units (((q0 * 64 + q1) * 64 + q2) * 64 + r) @ utf8_run utf8_init bs"
proof -
  have m: "(240 + q0) mod 8 = q0" "(128 + q1) mod 64 = q1" "(128 + q2) mod 64 = q2"
    "(128 + r) mod 64 = r"
    using mod_add_less [of q0 8 30] mod_add_less [of q1 64 2] mod_add_less [of q2 64 2]
      mod_add_less [of r 64 2] assms
    by simp_all
  show ?thesis
    using assms m
    by (auto simp add: utf8_step_def utf8_init_def utf8_start_def)
qed

lemma pair_code_point:
  assumes "is_high_surrogate u" "is_low_surrogate v"
  shows "0x10000 + (unat u - 0xD800) * 0x400 + (unat v - 0xDC00) < 0x110000"
proof -
  define h where "h = unat u - 0xD800"
  define l where "l = unat v - 0xDC00"
  have "h < 0x400" "l < 0x400"
    using assms by (auto simp add: h_def l_def is_high_surrogate_def is_low_surrogate_def)
  then have "0x10000 + h * 0x400 + l < 0x110000" by linarith
  then show ?thesis by (simp only: h_def l_def)
qed

lemma utf8_encode_bytes: "b \<in> set (utf8_encode s) \<Longrightarrow> b < 256"
proof (induction "length s" arbitrary: s rule: less_induct)
  case less
  show ?case
  proof (cases s)
    case Nil
    then show ?thesis using less.prems by simp
  next
    case (Cons u us)
    have ih: "b \<in> set (utf8_encode us) \<Longrightarrow> b < 256"
      using less.hyps [of us] Cons by simp
    note bound = unat_unit_less [of u]
    show ?thesis
    proof (cases "unat u < 0x800")
      case True
      then have "unat u div 64 < 32" "unat u mod 64 < 64" by simp_all
      then show ?thesis
        using less.prems Cons ih True by (auto split: if_splits)
    next
      case big: False
      have three: "unat u div 4096 < 16" "unat u div 64 mod 64 < 64" "unat u mod 64 < 64"
        using bound by simp_all
      show ?thesis
      proof (cases "is_high_surrogate u")
        case high: True
        show ?thesis
        proof (cases us)
          case Nil
          then show ?thesis using less.prems Cons big high by auto
        next
          case us: (Cons v vs)
          have ih2: "b \<in> set (utf8_encode vs) \<Longrightarrow> b < 256"
            using less.hyps [of vs] Cons us by simp
          show ?thesis
          proof (cases "is_low_surrogate v")
            case low: True
            define cp where "cp = 0x10000 + (unat u - 0xD800) * 0x400 + (unat v - 0xDC00)"
            have "cp < 0x110000"
              using pair_code_point [OF high low] by (simp only: cp_def)
            then have "cp div 262144 \<le> 4" by simp
            moreover have "cp div 4096 mod 64 < 64" "cp div 64 mod 64 < 64" "cp mod 64 < 64"
              by simp_all
            moreover have "utf8_encode s =
              [0xF0 + cp div 262144, 0x80 + cp div 4096 mod 64, 0x80 + cp div 64 mod 64,
               0x80 + cp mod 64] @ utf8_encode vs"
              using Cons us big high low by (simp add: cp_def)
            ultimately show ?thesis
              using less.prems ih2 by auto
          next
            case False
            then show ?thesis using less.prems Cons us big high ih by auto
          qed
        qed
      next
        case False
        then show ?thesis
          using less.prems Cons big ih three by (auto split: if_splits)
      qed
    qed
  qed
qed

lemma utf8_units_pair:
  assumes "is_high_surrogate u" "is_low_surrogate v"
  shows "utf8_units (0x10000 + (unat u - 0xD800) * 0x400 + (unat v - 0xDC00)) = [u, v]"
proof -
  define h where "h = unat u - 0xD800"
  define l where "l = unat v - 0xDC00"
  have hl: "h < 0x400" "l < 0x400" "unat u = 0xD800 + h" "unat v = 0xDC00 + l"
    using assms by (auto simp add: h_def l_def is_high_surrogate_def is_low_surrogate_def)
  have "(h * 0x400 + l) div 0x400 = h" "(h * 0x400 + l) mod 0x400 = l"
    using hl(2) by (simp_all add: div_add_less mod_add_less)
  then have "utf8_units (0x10000 + h * 0x400 + l) = [of_nat (0xD800 + h), of_nat (0xDC00 + l)]"
    by (simp add: utf8_units_def)
  also have "\<dots> = [of_nat (unat u), of_nat (unat v)]"
    by (simp only: hl)
  finally show ?thesis
    by (simp add: h_def l_def)
qed

lemma utf8_roundtrip: "well_formed s \<Longrightarrow> utf8_decode (utf8_encode s) = s"
  unfolding utf8_decode_def
proof (induction "length s" arbitrary: s rule: less_induct)
  case less
  show ?case
  proof (cases s)
    case Nil
    then show ?thesis by (simp add: utf8_init_def)
  next
    case (Cons u us)
    note bound = unat_unit_less [of u]
    show ?thesis
    proof (cases "is_high_surrogate u")
      case high: True
      then obtain v vs where us: "us = v # vs" and low: "is_low_surrogate v"
        and wf: "well_formed vs"
        using less.prems Cons by (cases us) auto
      have ih: "utf8_run utf8_init (utf8_encode vs) = vs"
        using less.hyps [of vs] wf Cons us by simp
      define cp where "cp = 0x10000 + (unat u - 0xD800) * 0x400 + (unat v - 0xDC00)"
      have cp: "0x10000 \<le> cp" "cp < 0x110000"
        using pair_code_point [OF high low] by (simp_all only: cp_def le_add1 add.assoc)
      have big: "\<not> unat u < 0x80" "\<not> unat u < 0x800"
        using high by (simp_all add: is_high_surrogate_def)
      have enc: "utf8_encode s =
          [0xF0 + cp div 262144, 0x80 + cp div 4096 mod 64, 0x80 + cp div 64 mod 64,
           0x80 + cp mod 64] @ utf8_encode vs"
        using Cons us big high low by (simp add: cp_def)
      have q0: "cp div 262144 \<le> 4" using cp by simp
      have d: "cp div 4096 div 64 = cp div 262144"
        using div_mult2_eq [of cp 4096 64] by simp
      have lo: "cp div 262144 = 0 \<longrightarrow> 16 \<le> cp div 4096 mod 64"
      proof
        assume "cp div 262144 = 0"
        then have "cp div 4096 mod 64 = cp div 4096"
          using d by (simp add: div_eq_0_iff)
        moreover have "16 \<le> cp div 4096" using cp(1) by simp
        ultimately show "16 \<le> cp div 4096 mod 64" by simp
      qed
      have hi: "cp div 262144 = 4 \<longrightarrow> cp div 4096 mod 64 < 16"
      proof
        assume "cp div 262144 = 4"
        then have "cp div 4096 = 4 * 64 + cp div 4096 mod 64"
          using d div_mult_mod_eq [of "cp div 4096" 64] by simp
        moreover have "cp div 4096 < 272" using cp(2) by simp
        ultimately show "cp div 4096 mod 64 < 16" by linarith
      qed
      have "utf8_run utf8_init (utf8_encode s) =
          utf8_units (((cp div 262144 * 64 + cp div 4096 mod 64) * 64 + cp div 64 mod 64) * 64
            + cp mod 64) @ vs"
        unfolding enc using utf8_run_4 [OF q0 _ _ _ lo hi, of "cp div 64 mod 64" "cp mod 64"
            "utf8_encode vs"] ih
        by simp
      also have "((cp div 262144 * 64 + cp div 4096 mod 64) * 64 + cp div 64 mod 64) * 64
            + cp mod 64 = cp"
        using digits64_4 [of cp] by simp
      finally show ?thesis
        using utf8_units_pair [OF high low] Cons us by (simp add: cp_def)
    next
      case nothigh: False
      then have notlow: "\<not> is_low_surrogate u" and wf: "well_formed us"
        using less.prems Cons by simp_all
      have ih: "utf8_run utf8_init (utf8_encode us) = us"
        using less.hyps [of us] wf Cons by simp
      consider (one) "unat u < 0x80" | (two) "0x80 \<le> unat u" "unat u < 0x800"
        | (three) "0x800 \<le> unat u"
        by linarith
      then show ?thesis
      proof cases
        case one
        then show ?thesis
          using Cons ih utf8_run_1 [of "unat u" "utf8_encode us"] by simp
      next
        case two
        have "2 \<le> unat u div 64" "unat u div 64 < 32" "unat u mod 64 < 64"
          using two by simp_all
        from utf8_run_2 [OF this, of "utf8_encode us"]
        show ?thesis
          using Cons ih two by simp
      next
        case three
        have enc: "utf8_encode s =
            [0xE0 + unat u div 4096, 0x80 + unat u div 64 mod 64, 0x80 + unat u mod 64]
            @ utf8_encode us"
          using Cons three nothigh notlow by simp
        have d: "unat u div 64 div 64 = unat u div 4096"
          using div_mult2_eq [of "unat u" 64 64] by simp
        have q1: "unat u div 4096 < 16" using bound by simp
        have lo: "unat u div 4096 = 0 \<longrightarrow> 32 \<le> unat u div 64 mod 64"
        proof
          assume "unat u div 4096 = 0"
          then have "unat u div 64 mod 64 = unat u div 64"
            using d by (simp add: div_eq_0_iff)
          moreover have "32 \<le> unat u div 64" using three by simp
          ultimately show "32 \<le> unat u div 64 mod 64" by simp
        qed
        have hi: "unat u div 4096 = 13 \<longrightarrow> unat u div 64 mod 64 < 32"
        proof
          assume a: "unat u div 4096 = 13"
          then have "unat u div 64 = 13 * 64 + unat u div 64 mod 64"
            using d div_mult_mod_eq [of "unat u div 64" 64] by simp
          moreover have "unat u < 0xD800"
          proof (rule ccontr)
            assume "\<not> unat u < 0xD800"
            moreover have "unat u < 0xE000"
              using a div_mult_mod_eq [of "unat u" 4096] by simp
            ultimately show False
              using nothigh notlow by (simp add: is_high_surrogate_def is_low_surrogate_def)
          qed
          then have "unat u div 64 < 864" by simp
          ultimately show "unat u div 64 mod 64 < 32" by linarith
        qed
        have "utf8_run utf8_init (utf8_encode s) =
            of_nat ((unat u div 4096 * 64 + unat u div 64 mod 64) * 64 + unat u mod 64) # us"
          unfolding enc
          using utf8_run_3 [OF q1 _ _ lo hi, of "unat u mod 64" "utf8_encode us"] ih
          by simp
        also have "(unat u div 4096 * 64 + unat u div 64 mod 64) * 64 + unat u mod 64 = unat u"
          using digits64_3 [of "unat u"] by simp
        finally show ?thesis
          using Cons by simp
      qed
    qed
  qed
qed

subsection \<open>Well-formed strings\<close>

lemma well_formed_plain_append:
  "\<forall>u\<in>set xs. \<not> is_high_surrogate u \<and> \<not> is_low_surrogate u \<Longrightarrow>
   well_formed (xs @ ys) = well_formed ys"
  by (induction xs) simp_all

lemma ascii_plain: "unat u < 0x80 \<Longrightarrow> \<not> is_high_surrogate u \<and> \<not> is_low_surrogate u"
  by (simp add: is_high_surrogate_def is_low_surrogate_def)

lemma js_plain: "u \<in> set (js s) \<Longrightarrow> \<not> is_high_surrogate u \<and> \<not> is_low_surrogate u"
proof -
  assume "u \<in> set (js s)"
  then obtain c where "u = of_char c" by (auto simp add: js_def)
  then have "unat u < 256"
    using nat_of_char_less_256 [of c] by simp
  then show ?thesis by (simp add: is_high_surrogate_def is_low_surrogate_def)
qed

lemma hex_digit_ascii: "d < 16 \<Longrightarrow> unat (hex_digit d) < 0x80"
  by (simp add: hex_digit_def unat_of_nat)

lemma unicode_escape_ascii:
  fixes u :: "16 word"
  assumes "x \<in> set (unicode_escape (unat u))"
  shows "unat x < 0x80"
proof -
  have "unat u div 4096 < 16" using unat_unit_less [of u] by simp
  then have d: "unat (hex_digit (unat u div 4096)) < 0x80"
    "unat (hex_digit (unat u div 256 mod 16)) < 0x80"
    "unat (hex_digit (unat u div 16 mod 16)) < 0x80"
    "unat (hex_digit (unat u mod 16)) < 0x80"
    by (simp_all add: hex_digit_ascii)
  from assms have "x = 0x5C \<or> x = 0x75 \<or> x = hex_digit (unat u div 4096)
      \<or> x = hex_digit (unat u div 256 mod 16) \<or> x = hex_digit (unat u div 16 mod 16)
      \<or> x = hex_digit (unat u mod 16)"
    by (simp add: unicode_escape_def)
  then show ?thesis using d by (elim disjE) simp_all
qed

lemma json_quote_body_step:
  "(\<exists>p. json_quote_body (u # us) = p @ json_quote_body us \<and> (\<forall>x\<in>set p. unat x < 0x80))
   \<or> (\<not> is_high_surrogate u \<and> \<not> is_low_surrogate u \<and>
       json_quote_body (u # us) = u # json_quote_body us)
   \<or> (\<exists>v vs. us = v # vs \<and> is_high_surrogate u \<and> is_low_surrogate v \<and>
       json_quote_body (u # us) = u # v # json_quote_body vs)"
proof -
  have esc: ?thesis
    if "json_quote_body (u # us) = unicode_escape (unat u) @ json_quote_body us"
  proof -
    have "\<forall>x\<in>set (unicode_escape (unat u)). unat x < 0x80"
      using unicode_escape_ascii [where u = u] by blast
    with that show ?thesis by blast
  qed
  consider (b) "u = 0x08" | (t) "u = 0x09" | (n) "u = 0x0A" | (f) "u = 0x0C"
    | (r) "u = 0x0D" | (q) "u = 0x22" | (s) "u = 0x5C"
    | (other) "u \<noteq> 0x08" "u \<noteq> 0x09" "u \<noteq> 0x0A" "u \<noteq> 0x0C" "u \<noteq> 0x0D"
        "u \<noteq> 0x22" "u \<noteq> 0x5C"
    by blast
  then show ?thesis
  proof cases
    case b
    have "json_quote_body (u # us) = [0x5C, 0x62] @ json_quote_body us \<and>
        (\<forall>x\<in>set [0x5C, 0x62 :: 16 word]. unat x < 0x80)"
      by (simp add: b)
    then show ?thesis by blast
  next
    case t
    have "json_quote_body (u # us) = [0x5C, 0x74] @ json_quote_body us \<and>
        (\<forall>x\<in>set [0x5C, 0x74 :: 16 word]. unat x < 0x80)"
      by (simp add: t)
    then show ?thesis by blast
  next
    case n
    have "json_quote_body (u # us) = [0x5C, 0x6E] @ json_quote_body us \<and>
        (\<forall>x\<in>set [0x5C, 0x6E :: 16 word]. unat x < 0x80)"
      by (simp add: n)
    then show ?thesis by blast
  next
    case f
    have "json_quote_body (u # us) = [0x5C, 0x66] @ json_quote_body us \<and>
        (\<forall>x\<in>set [0x5C, 0x66 :: 16 word]. unat x < 0x80)"
      by (simp add: f)
    then show ?thesis by blast
  next
    case r
    have "json_quote_body (u # us) = [0x5C, 0x72] @ json_quote_body us \<and>
        (\<forall>x\<in>set [0x5C, 0x72 :: 16 word]. unat x < 0x80)"
      by (simp add: r)
    then show ?thesis by blast
  next
    case q
    have "json_quote_body (u # us) = [0x5C, 0x22] @ json_quote_body us \<and>
        (\<forall>x\<in>set [0x5C, 0x22 :: 16 word]. unat x < 0x80)"
      by (simp add: q)
    then show ?thesis by blast
  next
    case s
    have "json_quote_body (u # us) = [0x5C, 0x5C] @ json_quote_body us \<and>
        (\<forall>x\<in>set [0x5C, 0x5C :: 16 word]. unat x < 0x80)"
      by (simp add: s)
    then show ?thesis by blast
  next
    case other
    show ?thesis
    proof (cases "unat u < 0x20")
      case True
      show ?thesis by (rule esc) (simp add: other True)
    next
      case plain: False
      show ?thesis
      proof (cases "is_high_surrogate u")
        case high: True
        show ?thesis
        proof (cases us)
          case Nil
          show ?thesis by (rule esc) (simp add: other plain high Nil)
        next
          case us: (Cons v vs)
          show ?thesis
          proof (cases "is_low_surrogate v")
            case True
            have "json_quote_body (u # us) = u # v # json_quote_body vs"
              by (simp add: other plain high us True)
            then show ?thesis using high True us by blast
          next
            case False
            show ?thesis by (rule esc) (simp add: other plain high us False)
          qed
        qed
      next
        case nothigh: False
        show ?thesis
        proof (cases "is_low_surrogate u")
          case True
          show ?thesis by (rule esc) (simp add: other plain nothigh True)
        next
          case False
          have "json_quote_body (u # us) = u # json_quote_body us"
            by (simp add: other plain nothigh False)
          then show ?thesis using nothigh False by blast
        qed
      qed
    qed
  qed
qed

lemma well_formed_quote:
  "well_formed ys \<Longrightarrow> well_formed (json_quote_body s @ ys)"
proof (induction "length s" arbitrary: s rule: less_induct)
  case less
  show ?case
  proof (cases s)
    case Nil
    then show ?thesis using less.prems by simp
  next
    case (Cons u us)
    have ih: "well_formed (json_quote_body us @ ys)"
      using less.hyps [of us] less.prems Cons by simp
    from json_quote_body_step [of u us]
    consider (esc) p where "json_quote_body (u # us) = p @ json_quote_body us"
        "\<forall>x\<in>set p. unat x < 0x80"
      | (raw) "\<not> is_high_surrogate u" "\<not> is_low_surrogate u"
        "json_quote_body (u # us) = u # json_quote_body us"
      | (pair) v vs where "us = v # vs" "is_high_surrogate u" "is_low_surrogate v"
        "json_quote_body (u # us) = u # v # json_quote_body vs"
      by blast
    then show ?thesis
    proof cases
      case esc
      have "\<forall>x\<in>set p. \<not> is_high_surrogate x \<and> \<not> is_low_surrogate x"
        using esc(2) ascii_plain by blast
      then have "well_formed (p @ json_quote_body us @ ys) = well_formed (json_quote_body us @ ys)"
        by (rule well_formed_plain_append)
      then show ?thesis using ih esc(1) Cons by simp
    next
      case raw
      have "well_formed (u # json_quote_body us @ ys) = well_formed (json_quote_body us @ ys)"
        using raw(1,2) by simp
      then show ?thesis using ih raw(3) Cons by simp
    next
      case pair
      have ih2: "well_formed (json_quote_body vs @ ys)"
        using less.hyps [of vs] less.prems Cons pair(1) by simp
      have "well_formed (u # v # json_quote_body vs @ ys) = well_formed (json_quote_body vs @ ys)"
        using pair(2,3) by simp
      then show ?thesis using ih2 pair(4) Cons by simp
    qed
  qed
qed

lemma well_formed_js: "well_formed (js s @ ys) = well_formed ys"
  using js_plain by (intro well_formed_plain_append) blast

lemma well_formed_stringify: "well_formed (stringify_state uid)"
proof -
  have q: "\<not> is_high_surrogate (0x22 :: 16 word)" "\<not> is_low_surrogate (0x22 :: 16 word)"
    by (simp_all add: is_high_surrogate_def is_low_surrogate_def)
  have "well_formed (0x22 # js ''}'')"
    using q well_formed_js [of "''}''" "[]"] by simp
  then have "well_formed (json_quote_body uid @ 0x22 # js ''}'')"
    by (rule well_formed_quote)
  then show ?thesis
    using q by (simp add: stringify_state_def well_formed_js)
qed

subsection \<open>The state survives the round trip\<close>

lemma json_quote_body_userId: "json_quote_body (js ''userId'') = js ''userId''"
  by (simp add: js_def is_high_surrogate_def is_low_surrogate_def)

lemma parse_chars_userId: "parse_chars (js ''userId'' @ 0x22 # rest) = Some (js ''userId'', rest)"
  using parse_chars_quote [of "js ''userId''" rest] by (simp only: json_quote_body_userId)

lemma stringify_state_eq:
  "stringify_state uid =
     0x7B # 0x22 # (js ''userId'' @ 0x22 # 0x3A # 0x22 # (json_quote_body uid @ 0x22 # [0x7D]))"
  by (simp add: stringify_state_def js_def)

lemma not_ws: "\<not> is_ws 0x7B" "\<not> is_ws 0x22" "\<not> is_ws 0x3A" "\<not> is_ws 0x7D"
  by (simp_all add: is_ws_def)

lemma json_parse_stringify:
  "json_parse (stringify_state uid) = Inr (JObj [(js ''userId'', JStr uid)])"
proof -
  obtain k where k: "2 * length (stringify_state uid) + 1 = Suc (Suc (Suc k))"
    by (simp add: stringify_state_eq)
  have "parse_value (Suc k) (0x22 # (json_quote_body uid @ 0x22 # [0x7D])) = Accept (JStr uid) [0x7D]"
    by (simp add: skip_ws_def not_ws parse_chars_quote del: parse_chars.simps)
  then have "parse_members (Suc (Suc k)) []
      (0x22 # (js ''userId'' @ 0x22 # 0x3A # 0x22 # (json_quote_body uid @ 0x22 # [0x7D])))
      = Accept (JObj [(js ''userId'', JStr uid)]) []"
    by (simp add: skip_ws_def not_ws parse_chars_userId del: parse_chars.simps parse_value.simps)
  then have "parse_value (Suc (Suc (Suc k))) (stringify_state uid)
      = Accept (JObj [(js ''userId'', JStr uid)]) []"
    by (simp add: stringify_state_eq skip_ws_def not_ws del: parse_members.simps)
  then show ?thesis
    unfolding json_parse_def k by (simp add: skip_ws_def)
qed

lemma decode_encode_state:
  "decode_state (encode_state uid) = Inr (JObj [(js ''userId'', JStr uid)])"
proof -
  have "base64_decode (encode_state uid) = utf8_encode (stringify_state uid)"
    unfolding encode_state_def
    by (rule base64_roundtrip) (simp add: utf8_encode_bytes)
  then show ?thesis
    by (simp add: decode_state_def utf8_roundtrip well_formed_stringify json_parse_stringify)
qed

lemma js_eq_iff [simp]: "js a = js b \<longleftrightarrow> a = b"
proof -
  have "inj (of_char :: char \<Rightarrow> 16 word)"
  proof (rule injI)
    fix x y :: char
    assume "(of_char x :: 16 word) = of_char y"
    then have "unat (of_char x :: 16 word) = unat (of_char y :: 16 word)" by simp
    then show "x = y" by simp
  qed
  then show ?thesis
    by (simp add: js_def inj_map_eq_map)
qed

lemma js_Nil [simp]: "js s = [] \<longleftrightarrow> s = []"
  by (simp add: js_def)

lemma failure_eq_iff [simp]: "failure r = failure r' \<longleftrightarrow> r = r'"
  by (cases r; cases r') (simp_all add: failure_def)

lemma failure_not_success [simp]: "failure r \<noteq> success" "success \<noteq> failure r"
  by (cases r; simp add: failure_def success_def frontend_error_url_def frontend_success_url_def)+

lemma truthy_one [simp]: "truthy (JNum 1)"
  by simp

lemma decode_state_u1:
  "decode_state (js ''eyJ1c2VySWQiOiJ1MSJ9'') = Inr (JObj [(js ''userId'', JStr (js ''u1''))])"
  by code_simp

lemma decode_state_null: "decode_state (js ''bnVsbA=='') = Inr JNull"
  by code_simp

subsection \<open>Stores\<close>

lemma status_store [simp]: "store (status e db uid) = db"
  by (simp add: status_def Let_def split: sum.splits option.splits prod.splits)

lemma repositories_store [simp]: "store (repositories e db uid) = db"
  by (simp add: repositories_def split: sum.splits option.splits prod.splits)

lemma auth_store [simp]: "store (auth e db token) = db"
  by (simp add: auth_def split: sum.splits)

lemma findById_Some:
  "findById e db v = Inr (Some (i, u)) \<Longrightarrow> v = JStr i \<and> db i = Some u"
  by (auto simp add: findById_def split: if_splits jsval.splits option.splits)

lemma disconnect_store:
  "store (disconnect e db uid) = db \<or>
   (\<exists>u. db uid = Some u \<and>
      store (disconnect e db uid) =
        db(uid \<mapsto> u\<lparr>githubAccessToken := JUndefined, githubUsername := JUndefined,
                     githubId := JUndefined, githubProfileUrl := JUndefined,
                     githubConnectedAt := JUndefined\<rparr>))"
  by (auto simp add: disconnect_def save_def select_default_def Let_def
      split: sum.splits option.splits prod.splits dest!: findById_Some)

lemma callback_store:
  "store (callback e db q) = db \<or>
   (\<exists>i u tok p.
      db i = Some u \<and> fetch_profile e tok = Inr p \<and> truthy tok \<and>
      truthy (field p (js ''login'')) \<and> response (callback e db q) = success \<and>
      store (callback e db q) =
        db(i \<mapsto> u\<lparr>githubAccessToken := tok, githubUsername := field p (js ''login''),
                   githubId := field p (js ''id''),
                   githubProfileUrl := field p (js ''html_url''),
                   githubConnectedAt := JDate (now e)\<rparr>))"
proof (cases "response (callback e db q) = success")
  case False
  then have "store (callback e db q) = db"
    by (auto simp add: callback_def failed_def save_def Let_def
        split: if_splits sum.splits option.splits prod.splits)
  then show ?thesis by simp
next
  case True
  then show ?thesis
    by (auto simp add: callback_def failed_def save_def Let_def get_prop_def select_default_def
        split: if_splits sum.splits option.splits prod.splits dest!: findById_Some)
qed

lemma linkage_inv_update:
  "linkage_inv db \<Longrightarrow> all_set u \<or> all_cleared u \<Longrightarrow> linkage_inv (db(i \<mapsto> u))"
  by (simp add: linkage_inv_def)

lemma handle_keeps_linkage:
  assumes "linkage_inv db" and "profile_contract e"
  shows "linkage_inv (store (handle e db req))"
proof (cases req)
  case (GetAuth token)
  then show ?thesis using assms(1) by simp
next
  case (GetCallback q)
  from callback_store [of e db q] show ?thesis
  proof
    assume "store (callback e db q) = db"
    then show ?thesis using assms(1) GetCallback by simp
  next
    assume "\<exists>i u tok p.
      db i = Some u \<and> fetch_profile e tok = Inr p \<and> truthy tok \<and>
      truthy (field p (js ''login'')) \<and> response (callback e db q) = success \<and>
      store (callback e db q) =
        db(i \<mapsto> u\<lparr>githubAccessToken := tok, githubUsername := field p (js ''login''),
                   githubId := field p (js ''id''),
                   githubProfileUrl := field p (js ''html_url''),
                   githubConnectedAt := JDate (now e)\<rparr>)"
    then obtain i u tok p where *: "fetch_profile e tok = Inr p" "truthy tok"
      "truthy (field p (js ''login''))"
      "store (callback e db q) =
        db(i \<mapsto> u\<lparr>githubAccessToken := tok, githubUsername := field p (js ''login''),
                   githubId := field p (js ''id''),
                   githubProfileUrl := field p (js ''html_url''),
                   githubConnectedAt := JDate (now e)\<rparr>)"
      by blast
    from assms(2) *(1,3) have "truthy (field p (js ''id''))" "truthy (field p (js ''html_url''))"
      unfolding profile_contract_def by blast+
    then have "all_set (u\<lparr>githubAccessToken := tok, githubUsername := field p (js ''login''),
                   githubId := field p (js ''id''),
                   githubProfileUrl := field p (js ''html_url''),
                   githubConnectedAt := JDate (now e)\<rparr>)"
      using *(2,3) by (simp add: all_set_def)
    then show ?thesis
      using assms(1) GetCallback *(4) by (simp add: linkage_inv_update)
  qed
next
  case (GetStatus uid)
  then show ?thesis using assms(1) by simp
next
  case (PostDisconnect uid)
  from disconnect_store [of e db uid] show ?thesis
  proof
    assume "store (disconnect e db uid) = db"
    then show ?thesis using assms(1) PostDisconnect by simp
  next
    assume "\<exists>u. db uid = Some u \<and>
      store (disconnect e db uid) =
        db(uid \<mapsto> u\<lparr>githubAccessToken := JUndefined, githubUsername := JUndefined,
                     githubId := JUndefined, githubProfileUrl := JUndefined,
                     githubConnectedAt := JUndefined\<rparr>)"
    then obtain u where "store (disconnect e db uid) =
        db(uid \<mapsto> u\<lparr>githubAccessToken := JUndefined, githubUsername := JUndefined,
                     githubId := JUndefined, githubProfileUrl := JUndefined,
                     githubConnectedAt := JUndefined\<rparr>)"
      by blast
    then show ?thesis
      using assms(1) PostDisconnect by (simp add: linkage_inv_update all_cleared_def)
  qed
next
  case (GetRepositories uid)
  then show ?thesis using assms(1) by simp
qed

lemma callback_null_state:
  "response (callback e db \<lparr>q_code = Some (js ''abc''), q_state = Some (js ''bnVsbA==''), q_error = None\<rparr>)
     = failure ServerError"
  by (simp add: callback_def present_def decode_state_null get_prop_def failed_def)

lemma callback_u1_ok:
  "callback env_ok [js ''u1'' \<mapsto> user_unlinked] query_u1 =
     \<lparr>response = success, store = [js ''u1'' \<mapsto> user_linked],
      effects =
        [Outbound token_url, Outbound profile_url,
         Assign GithubAccessToken (JStr (js ''tok'')),
         Assign GithubUsername (JStr (js ''octo'')),
         Assign GithubId (JNum 1),
         Assign GithubProfileUrl (JStr (js ''https://github.com/octo'')),
         Assign GithubConnectedAt (JDate 1000),
         SaveCall (js ''u1'')]\<rparr>"
  by (simp add: callback_def query_u1_def present_def decode_state_u1 get_prop_def failed_def
      env_ok_def profile_octo_def findById_def save_def Let_def select_default_def
      user_unlinked_def user_linked_def)

lemma callback_success_store:
  assumes "response (callback e db q) = success"
  shows "\<exists>code st d data p i u.
           q_code q = Some code \<and> q_state q = Some st \<and> decode_state st = Inr d \<and>
           token_exchange e code = Inr data \<and>
           fetch_profile e (field data (js ''access_token'')) = Inr p \<and>
           findById e db (field d (js ''userId'')) = Inr (Some (i, u)) \<and>
           truthy (field data (js ''access_token'')) \<and> truthy (field p (js ''login'')) \<and>
           store (callback e db q) =
             db(i \<mapsto> u\<lparr>githubAccessToken := field data (js ''access_token''),
                       githubUsername := field p (js ''login''),
                       githubId := field p (js ''id''),
                       githubProfileUrl := field p (js ''html_url''),
                       githubConnectedAt := JDate (now e)\<rparr>)"
proof -
  from assms obtain code st where q: "q_code q = Some code" "q_state q = Some st"
    by (cases "q_code q"; cases "q_state q")
      (simp_all add: callback_def failed_def present_def split: if_splits)
  from assms q obtain d where d: "decode_state st = Inr d"
    by (cases "decode_state st") (simp_all add: callback_def failed_def split: if_splits)
  from assms q d have dn: "get_prop d (js ''userId'') = Inr (field d (js ''userId''))"
    by (cases "get_prop d (js ''userId'')")
      (auto simp add: callback_def failed_def get_prop_def split: if_splits)
  from assms q d dn obtain data where data: "token_exchange e code = Inr data"
    by (cases "token_exchange e code") (simp_all add: callback_def failed_def split: if_splits)
  from assms q d dn data
  have tn: "get_prop data (js ''access_token'') = Inr (field data (js ''access_token''))"
    by (cases "get_prop data (js ''access_token'')")
      (auto simp add: callback_def failed_def get_prop_def split: if_splits)
  from assms q d dn data tn have tt: "truthy (field data (js ''access_token''))"
    by (auto simp add: callback_def failed_def split: if_splits)
  from assms q d dn data tn tt
  obtain p where p: "fetch_profile e (field data (js ''access_token'')) = Inr p"
    by (cases "fetch_profile e (field data (js ''access_token''))")
      (simp_all add: callback_def failed_def split: if_splits)
  from assms q d dn data tn tt p
  have pn: "get_prop p (js ''login'') = Inr (field p (js ''login''))"
    by (cases "get_prop p (js ''login'')")
      (auto simp add: callback_def failed_def get_prop_def split: if_splits)
  from assms q d dn data tn tt p pn have pt: "truthy (field p (js ''login''))"
    by (auto simp add: callback_def failed_def split: if_splits)
  from assms q d dn data tn tt p pn pt
  obtain i u where f: "findById e db (field d (js ''userId'')) = Inr (Some (i, u))"
    by (cases "findById e db (field d (js ''userId''))")
      (auto simp add: callback_def failed_def split: if_splits option.splits)
  from assms q d dn data tn tt p pn pt f
  have "store (callback e db q) =
             db(i \<mapsto> u\<lparr>githubAccessToken := field data (js ''access_token''),
                       githubUsername := field p (js ''login''),
                       githubId := field p (js ''id''),
                       githubProfileUrl := field p (js ''html_url''),
                       githubConnectedAt := JDate (now e)\<rparr>)"
    by (auto simp add: callback_def failed_def save_def Let_def select_default_def
        split: if_splits)
  with q d data p f tt pt show ?thesis by blast
qed

lemma callback_failure_store_same:
  "response (callback e db q) \<noteq> success \<Longrightarrow> store (callback e db q) = db"
  by (auto simp add: callback_def failed_def save_def Let_def
      split: if_splits sum.splits option.splits prod.splits)

lemma disconnect_clears:
  "\<not> find_fault e (JStr uid) \<Longrightarrow> \<not> save_fault e \<Longrightarrow> db uid = Some u \<Longrightarrow>
   store (disconnect e db uid) = db(uid \<mapsto> u\<lparr>githubAccessToken := JUndefined, githubUsername := JUndefined,
                     githubId := JUndefined, githubProfileUrl := JUndefined,
                     githubConnectedAt := JUndefined\<rparr>)"
  by (simp add: disconnect_def findById_def save_def select_default_def)

lemma disconnect_fault_store:
  "find_fault e (JStr uid) \<or> save_fault e \<or> db uid = None \<Longrightarrow>
   store (disconnect e db uid) = db"
  by (auto simp add: disconnect_def findById_def save_def Let_def
      split: option.splits)

lemma callback_success_all_set:
  assumes "response (callback e db q) = success" and "profile_contract e"
  shows "\<exists>i u'. store (callback e db q) i = Some u' \<and> all_set u'"
proof -
  from callback_success_store [OF assms(1)] obtain data p i u where
    *: "fetch_profile e (field data (js ''access_token'')) = Inr p"
       "truthy (field data (js ''access_token''))" "truthy (field p (js ''login''))"
       "store (callback e db q) =
             db(i \<mapsto> u\<lparr>githubAccessToken := field data (js ''access_token''),
                       githubUsername := field p (js ''login''),
                       githubId := field p (js ''id''),
                       githubProfileUrl := field p (js ''html_url''),
                       githubConnectedAt := JDate (now e)\<rparr>)"
    by blast
  from assms(2) *(1,3) have "truthy (field p (js ''id''))" "truthy (field p (js ''html_url''))"
    unfolding profile_contract_def by blast+
  then have "all_set (u\<lparr>githubAccessToken := field data (js ''access_token''),
                       githubUsername := field p (js ''login''),
                       githubId := field p (js ''id''),
                       githubProfileUrl := field p (js ''html_url''),
                       githubConnectedAt := JDate (now e)\<rparr>)"
    using *(2,3) by (simp add: all_set_def)
  then show ?thesis using *(4) by (auto intro!: exI [of _ i])
qed

lemma linkage_inv_unlinked: "linkage_inv [js ''u1'' \<mapsto> user_unlinked]"
  by (simp add: linkage_inv_def all_cleared_def user_unlinked_def)

lemma profile_contract_ok: "profile_contract env_ok"
  by (simp add: profile_contract_def env_ok_def profile_octo_def)

lemma map_exn_repo_summary:
  "\<forall>r\<in>set rs. r \<noteq> JNull \<and> r \<noteq> JUndefined \<Longrightarrow>
   \<exists>out. map_exn repo_summary rs = Inr out \<and> length out = length rs \<and>
     (\<forall>i<length rs. repo_summary (rs ! i) = Inr (out ! i))"
proof (induction rs)
  case Nil
  then show ?case by simp
next
  case (Cons r rs)
  then obtain out where out: "map_exn repo_summary rs = Inr out" "length out = length rs"
    "\<forall>i<length rs. repo_summary (rs ! i) = Inr (out ! i)" by auto
  from Cons.prems obtain s where s: "repo_summary r = Inr s"
    by (auto simp add: repo_summary_def)
  have "\<forall>i<length (r # rs). repo_summary ((r # rs) ! i) = Inr ((s # out) ! i)"
    using out(3) s by (auto simp add: nth_Cons split: nat.splits)
  then show ?case using out s by auto
qed

lemma summary_as_map:
  "JObj
     [(js ''id'', field r (js ''id'')),
      (js ''name'', field r (js ''name'')),
      (js ''fullName'', field r (js ''full_name'')),
      (js ''description'', field r (js ''description'')),
      (js ''private'', field r (js ''private'')),
      (js ''htmlUrl'', field r (js ''html_url'')),
      (js ''language'', field r (js ''language'')),
      (js ''updatedAt'', field r (js ''updated_at'')),
      (js ''stargazersCount'', field r (js ''stargazers_count'')),
      (js ''forksCount'', field r (js ''forks_count''))]
   = JObj (map (\<lambda>(k, k'). (k, field r k')) spec_summary_fields)"
  by (simp add: spec_summary_fields_def)

lemma field_summary:
  "field (JObj (map (\<lambda>(k, k'). (k, field r k')) spec_summary_fields)) k =
     (case map_of spec_summary_fields k of None \<Rightarrow> JUndefined | Some k' \<Rightarrow> field r k')"
  by (simp add: map_of_map split: option.splits)

lemma sent_properties_summary:
  "sent_properties (JObj (map (\<lambda>(k, k'). (k, field r k')) spec_summary_fields)) =
     filter (\<lambda>(k, x). x \<noteq> JUndefined) (map (\<lambda>(k, k'). (k, field r k')) spec_summary_fields)"
  by (simp add: sent_properties_def)

lemma list_two: "length xs = 2 \<Longrightarrow> xs = [xs ! 0, xs ! 1]"
  by (cases xs; cases "tl xs") auto













subsection \<open>The bound of the parser is never reached\<close>

lemma skip_ws_Cons: "skip_ws cs = c # r \<Longrightarrow> length r < length cs"
proof -
  assume a: "skip_ws cs = c # r"
  have "length (skip_ws cs) \<le> length cs"
    by (simp add: skip_ws_def length_dropWhile_le)
  then show ?thesis using a by simp
qed

lemma cons_result_Some:
  "cons_result c r = Some (s, rest) \<Longrightarrow> \<exists>s'. r = Some (s', rest)"
  by (auto simp add: cons_result_def split: option.splits prod.splits)

lemma parse_chars_shorter: "parse_chars cs = Some (s, r) \<Longrightarrow> length r < length cs"
proof (induction "length cs" arbitrary: cs s rule: less_induct)
  case less
  show ?case
  proof (cases cs)
    case Nil
    then show ?thesis using less.prems by simp
  next
    case (Cons c cs')
    note ih = less.hyps
    show ?thesis
    proof (cases "c = 0x22")
      case True
      then show ?thesis using less.prems Cons by simp
    next
      case notq: False
      show ?thesis
      proof (cases "c = 0x5C")
        case bs: True
        show ?thesis
        proof (cases cs')
          case Nil
          then show ?thesis using less.prems Cons bs by simp
        next
          case es: (Cons e es)
          show ?thesis
          proof (cases "e = 0x75")
            case True
            then obtain h1 h2 h3 h4 r0 v where r0: "es = h1 # h2 # h3 # h4 # r0"
              and c: "cons_result (of_nat v) (parse_chars r0) = Some (s, r)"
              using less.prems Cons bs es
              by (auto split: list.splits option.splits)
            from cons_result_Some [OF c] obtain s' where "parse_chars r0 = Some (s', r)" by blast
            from ih [OF _ this] have "length r < length r0"
              using Cons es r0 by simp
            then show ?thesis using Cons es r0 by simp
          next
            case False
            then obtain x where c: "cons_result x (parse_chars es) = Some (s, r)"
              using less.prems Cons bs es by (auto split: option.splits)
            from cons_result_Some [OF c] obtain s' where "parse_chars es = Some (s', r)" by blast
            from ih [OF _ this] have "length r < length es"
              using Cons es by simp
            then show ?thesis using Cons es by simp
          qed
        qed
      next
        case False
        then have c: "cons_result c (parse_chars cs') = Some (s, r)"
          using less.prems Cons notq by (simp split: if_splits)
        from cons_result_Some [OF c] obtain s' where "parse_chars cs' = Some (s', r)" by blast
        from ih [OF _ this] have "length r < length cs'"
          using Cons by simp
        then show ?thesis using Cons by simp
      qed
    qed
  qed
qed

lemma parse_int_part_shorter: "parse_int_part cs = Some (ds, r) \<Longrightarrow> length r < length cs"
proof (cases cs)
  case Nil
  assume "parse_int_part cs = Some (ds, r)"
  then show ?thesis using Nil by (simp add: parse_int_part_def)
next
  case (Cons c cs')
  assume a: "parse_int_part cs = Some (ds, r)"
  have "length (dropWhile is_digit cs') \<le> length cs'"
    by (rule length_dropWhile_le)
  then show ?thesis
    using a Cons by (auto simp add: parse_int_part_def split: if_splits)
qed

lemma parse_frac_part_shorter: "parse_frac_part cs = Some (fs, r) \<Longrightarrow> length r \<le> length cs"
proof (cases cs)
  case Nil
  assume "parse_frac_part cs = Some (fs, r)"
  then show ?thesis using Nil by (simp add: parse_frac_part_def)
next
  case (Cons c cs')
  assume a: "parse_frac_part cs = Some (fs, r)"
  have "length (dropWhile is_digit cs') \<le> length cs'"
    by (rule length_dropWhile_le)
  then show ?thesis
    using a Cons by (auto simp add: parse_frac_part_def split: if_splits)
qed

lemma parse_exp_part_shorter: "parse_exp_part cs = Some (ex, r) \<Longrightarrow> length r \<le> length cs"
proof (cases cs)
  case Nil
  assume "parse_exp_part cs = Some (ex, r)"
  then show ?thesis using Nil by (simp add: parse_exp_part_def)
next
  case (Cons c cs')
  assume a: "parse_exp_part cs = Some (ex, r)"
  show ?thesis
  proof (cases cs')
    case Nil
    then show ?thesis using a Cons by (auto simp add: parse_exp_part_def split: if_splits)
  next
    case c2: (Cons s r')
    have "length (dropWhile is_digit r') \<le> length r'"
      by (rule length_dropWhile_le)
    then show ?thesis
      using a Cons c2 by (auto simp add: parse_exp_part_def split: if_splits)
  qed
qed

lemma parse_unsigned_shorter: "parse_unsigned neg cs = Some (q, r) \<Longrightarrow> length r < length cs"
proof -
  assume "parse_unsigned neg cs = Some (q, r)"
  then obtain ds r1 fs r2 ex where "parse_int_part cs = Some (ds, r1)"
    "parse_frac_part r1 = Some (fs, r2)" "parse_exp_part r2 = Some (ex, r)"
    by (auto simp add: parse_unsigned_def split: option.splits)
  then show ?thesis
    using parse_int_part_shorter [of cs ds r1] parse_frac_part_shorter [of r1 fs r2]
      parse_exp_part_shorter [of r2 ex r]
    by simp
qed

lemma parse_number_shorter: "parse_number cs = Some (q, r) \<Longrightarrow> length r < length cs"
proof (cases cs)
  case Nil
  assume "parse_number cs = Some (q, r)"
  then show ?thesis using Nil by (simp add: parse_number_def)
next
  case (Cons c cs')
  assume a: "parse_number cs = Some (q, r)"
  show ?thesis
  proof (cases "c = 0x2D")
    case True
    then have "parse_unsigned True cs' = Some (q, r)"
      using a Cons by (simp add: parse_number_def)
    then show ?thesis using parse_unsigned_shorter [of True cs' q r] Cons by simp
  next
    case False
    then have "parse_unsigned False cs = Some (q, r)"
      using a Cons by (simp add: parse_number_def)
    then show ?thesis by (rule parse_unsigned_shorter)
  qed
qed

lemma parse_value_Suc:
  assumes e_fuel: "\<And>acc cs. 2 * length cs + 1 < n \<Longrightarrow> parse_elements n acc cs \<noteq> OutOfFuel"
    and e_len: "\<And>acc cs v r. parse_elements n acc cs = Accept v r \<Longrightarrow> length r < length cs"
    and m_fuel: "\<And>acc cs. 2 * length cs + 1 < n \<Longrightarrow> parse_members n acc cs \<noteq> OutOfFuel"
    and m_len: "\<And>acc cs v r. parse_members n acc cs = Accept v r \<Longrightarrow> length r < length cs"
  shows "(2 * length cs < Suc n \<longrightarrow> parse_value (Suc n) cs \<noteq> OutOfFuel) \<and>
         (\<forall>v r. parse_value (Suc n) cs = Accept v r \<longrightarrow> length r < length cs)"
proof (cases "skip_ws cs")
  case Nil
  then show ?thesis by simp
next
  case (Cons c r0)
  note r0 = skip_ws_Cons [OF Cons]
  show ?thesis
  proof (cases "c = 0x7B")
    case obj: True
    show ?thesis
    proof (cases "skip_ws r0")
      case Nil
      then show ?thesis using Cons obj by simp
    next
      case d: (Cons d r')
      note r' = skip_ws_Cons [OF d]
      show ?thesis
      proof (cases "d = 0x7D")
        case True
        then show ?thesis using Cons obj d r0 r' by simp
      next
        case False
        then have eq: "parse_value (Suc n) cs = parse_members n [] r0"
          using Cons obj d by simp
        have "2 * length cs < Suc n \<Longrightarrow> parse_members n [] r0 \<noteq> OutOfFuel"
          using r0 by (intro m_fuel) simp
        moreover have "parse_members n [] r0 = Accept v r \<Longrightarrow> length r < length cs" for v r
          using m_len [of "[]" r0 v r] r0 by simp
        ultimately show ?thesis unfolding eq by blast
      qed
    qed
  next
    case notobj: False
    show ?thesis
    proof (cases "c = 0x5B")
      case arr: True
      show ?thesis
      proof (cases "skip_ws r0")
        case Nil
        then show ?thesis using Cons notobj arr by simp
      next
        case d: (Cons d r')
        note r' = skip_ws_Cons [OF d]
        show ?thesis
        proof (cases "d = 0x5D")
          case True
          then show ?thesis using Cons notobj arr d r0 r' by simp
        next
          case False
          then have eq: "parse_value (Suc n) cs = parse_elements n [] r0"
            using Cons notobj arr d by simp
          have "2 * length cs < Suc n \<Longrightarrow> parse_elements n [] r0 \<noteq> OutOfFuel"
            using r0 by (intro e_fuel) simp
          moreover have "parse_elements n [] r0 = Accept v r \<Longrightarrow> length r < length cs" for v r
            using e_len [of "[]" r0 v r] r0 by simp
          ultimately show ?thesis unfolding eq by blast
        qed
      qed
    next
      case notarr: False
      show ?thesis
      proof (cases "c = 0x22")
        case True
        then have eq: "parse_value (Suc n) cs =
            (case parse_chars r0 of None \<Rightarrow> Reject | Some (s, r') \<Rightarrow> Accept (JStr s) r')"
          using Cons notobj notarr by simp
        show ?thesis
          unfolding eq using parse_chars_shorter [of r0] r0
          by (auto split: option.splits)
      next
        case notstr: False
        have eq: "parse_value (Suc n) cs =
            (if take 4 (c # r0) = js ''true'' then Accept (JBool True) (drop 4 (c # r0))
             else if take 5 (c # r0) = js ''false'' then Accept (JBool False) (drop 5 (c # r0))
             else if take 4 (c # r0) = js ''null'' then Accept JNull (drop 4 (c # r0))
             else (case parse_number (c # r0) of
                     None \<Rightarrow> Reject
                   | Some (q, r') \<Rightarrow> Accept (JNum q) r'))"
          using Cons notobj notarr notstr by simp
        have "parse_number (c # r0) = Some (q, r') \<Longrightarrow> length r' < length cs" for q r'
          using parse_number_shorter [of "c # r0" q r'] r0 by simp
        then show ?thesis
          unfolding eq using r0 by (auto split: option.splits)
      qed
    qed
  qed
qed

lemma parse_elements_Suc:
  assumes v_fuel: "\<And>cs. 2 * length cs < n \<Longrightarrow> parse_value n cs \<noteq> OutOfFuel"
    and v_len: "\<And>cs v r. parse_value n cs = Accept v r \<Longrightarrow> length r < length cs"
    and e_fuel: "\<And>acc cs. 2 * length cs + 1 < n \<Longrightarrow> parse_elements n acc cs \<noteq> OutOfFuel"
    and e_len: "\<And>acc cs v r. parse_elements n acc cs = Accept v r \<Longrightarrow> length r < length cs"
  shows "(2 * length cs + 1 < Suc n \<longrightarrow> parse_elements (Suc n) acc cs \<noteq> OutOfFuel) \<and>
         (\<forall>v r. parse_elements (Suc n) acc cs = Accept v r \<longrightarrow> length r < length cs)"
proof (cases "parse_value n cs")
  case OutOfFuel
  then show ?thesis using v_fuel [of cs] by auto
next
  case Reject
  then show ?thesis by simp
next
  case (Accept x r1)
  note r1 = v_len [OF Accept]
  show ?thesis
  proof (cases "skip_ws r1")
    case Nil
    then show ?thesis using Accept by simp
  next
    case (Cons d r2)
    note r2 = skip_ws_Cons [OF Cons]
    show ?thesis
    proof (cases "d = 0x2C")
      case True
      then have eq: "parse_elements (Suc n) acc cs = parse_elements n (acc @ [x]) r2"
        using Accept Cons by simp
      have "2 * length cs + 1 < Suc n \<Longrightarrow> parse_elements n (acc @ [x]) r2 \<noteq> OutOfFuel"
        using r1 r2 by (intro e_fuel) simp
      moreover have "parse_elements n (acc @ [x]) r2 = Accept v r \<Longrightarrow> length r < length cs"
        for v r
        using e_len [of "acc @ [x]" r2 v r] r1 r2 by simp
      ultimately show ?thesis unfolding eq by blast
    next
      case False
      then show ?thesis using Accept Cons r1 r2 by simp
    qed
  qed
qed

lemma parse_members_Suc:
  assumes v_fuel: "\<And>cs. 2 * length cs < n \<Longrightarrow> parse_value n cs \<noteq> OutOfFuel"
    and v_len: "\<And>cs v r. parse_value n cs = Accept v r \<Longrightarrow> length r < length cs"
    and m_fuel: "\<And>acc cs. 2 * length cs + 1 < n \<Longrightarrow> parse_members n acc cs \<noteq> OutOfFuel"
    and m_len: "\<And>acc cs v r. parse_members n acc cs = Accept v r \<Longrightarrow> length r < length cs"
  shows "(2 * length cs + 1 < Suc n \<longrightarrow> parse_members (Suc n) acc cs \<noteq> OutOfFuel) \<and>
         (\<forall>v r. parse_members (Suc n) acc cs = Accept v r \<longrightarrow> length r < length cs)"
proof (cases "skip_ws cs")
  case Nil
  then show ?thesis by simp
next
  case (Cons c r0)
  note r0 = skip_ws_Cons [OF Cons]
  show ?thesis
  proof (cases "c = 0x22")
    case False
    then show ?thesis using Cons by simp
  next
    case quote: True
    show ?thesis
    proof (cases "parse_chars r0")
      case None
      then show ?thesis using Cons quote by simp
    next
      case (Some kr)
      obtain k r1 where kr: "kr = (k, r1)" by (cases kr)
      note r1 = parse_chars_shorter [OF Some [unfolded kr]]
      show ?thesis
      proof (cases "skip_ws r1")
        case Nil
        then show ?thesis using Cons quote Some kr by simp
      next
        case colon: (Cons d r2)
        note r2 = skip_ws_Cons [OF colon]
        show ?thesis
        proof (cases "d = 0x3A")
          case False
          then show ?thesis using Cons quote Some kr colon by simp
        next
          case True
          show ?thesis
          proof (cases "parse_value n r2")
            case OutOfFuel
            have "2 * length cs + 1 < Suc n \<Longrightarrow> parse_value n r2 \<noteq> OutOfFuel"
              using r0 r1 r2 by (intro v_fuel) simp
            then show ?thesis
              using OutOfFuel Cons quote Some kr colon True by auto
          next
            case Reject
            then show ?thesis using Cons quote Some kr colon True by simp
          next
            case (Accept x r3)
            note r3 = v_len [OF Accept]
            show ?thesis
            proof (cases "skip_ws r3")
              case Nil
              then show ?thesis using Accept Cons quote Some kr colon True by simp
            next
              case sep: (Cons y r4)
              note r4 = skip_ws_Cons [OF sep]
              show ?thesis
              proof (cases "y = 0x2C")
                case comma: True
                then have eq: "parse_members (Suc n) acc cs =
                    parse_members n (AList.update k x acc) r4"
                  using Accept Cons quote Some kr colon True sep by simp
                have "2 * length cs + 1 < Suc n \<Longrightarrow>
                    parse_members n (AList.update k x acc) r4 \<noteq> OutOfFuel"
                  using r0 r1 r2 r3 r4 by (intro m_fuel) simp
                moreover have "parse_members n (AList.update k x acc) r4 = Accept v r \<Longrightarrow>
                    length r < length cs" for v r
                  using m_len [of "AList.update k x acc" r4 v r] r0 r1 r2 r3 r4 by simp
                ultimately show ?thesis unfolding eq by blast
              next
                case False
                then show ?thesis
                  using Accept Cons quote Some kr colon True sep r0 r1 r2 r3 r4 by simp
              qed
            qed
          qed
        qed
      qed
    qed
  qed
qed

lemma parse_fuel:
  "(\<forall>cs. (2 * length cs < n \<longrightarrow> parse_value n cs \<noteq> OutOfFuel) \<and>
         (\<forall>v r. parse_value n cs = Accept v r \<longrightarrow> length r < length cs)) \<and>
   (\<forall>acc cs. (2 * length cs + 1 < n \<longrightarrow> parse_elements n acc cs \<noteq> OutOfFuel) \<and>
         (\<forall>v r. parse_elements n acc cs = Accept v r \<longrightarrow> length r < length cs)) \<and>
   (\<forall>acc cs. (2 * length cs + 1 < n \<longrightarrow> parse_members n acc cs \<noteq> OutOfFuel) \<and>
         (\<forall>v r. parse_members n acc cs = Accept v r \<longrightarrow> length r < length cs))"
proof (induction n)
  case 0
  show ?case by simp
next
  case (Suc n)
  have v: "(2 * length cs < Suc n \<longrightarrow> parse_value (Suc n) cs \<noteq> OutOfFuel) \<and>
         (\<forall>v r. parse_value (Suc n) cs = Accept v r \<longrightarrow> length r < length cs)" for cs
    by (rule parse_value_Suc) (use Suc in blast)+
  have e: "(2 * length cs + 1 < Suc n \<longrightarrow> parse_elements (Suc n) acc cs \<noteq> OutOfFuel) \<and>
         (\<forall>v r. parse_elements (Suc n) acc cs = Accept v r \<longrightarrow> length r < length cs)" for acc cs
    by (rule parse_elements_Suc) (use Suc in blast)+
  have m: "(2 * length cs + 1 < Suc n \<longrightarrow> parse_members (Suc n) acc cs \<noteq> OutOfFuel) \<and>
         (\<forall>v r. parse_members (Suc n) acc cs = Accept v r \<longrightarrow> length r < length cs)" for acc cs
    by (rule parse_members_Suc) (use Suc in blast)+
  from v e m show ?case by blast
qed

lemma parse_value_fuel: "parse_value (2 * length s + 1) s \<noteq> OutOfFuel"
  using parse_fuel [of "2 * length s + 1"] by simp

lemma json_parse_rejects:
  "json_parse s = Inl x \<Longrightarrow>
   x = SyntaxError \<and>
   (parse_value (2 * length s + 1) s = Reject \<or>
    (\<exists>v r. parse_value (2 * length s + 1) s = Accept v r \<and> skip_ws r \<noteq> []))"
  using parse_value_fuel [of s]
  by (auto simp add: json_parse_def split: presult.splits if_splits)



lemma encode_state_u1: "encode_state (js ''u1'') = js ''eyJ1c2VySWQiOiJ1MSJ9''"
  by (simp add: encode_state_def stringify_state_def js_def is_high_surrogate_def
      is_low_surrogate_def b64_char_def b64_alphabet_def)

section \<open>The linkage fields of a user document\<close>

text \<open>
  C1. If in every stored document the five linkage fields are all set or all cleared,
  then they are so again after any request to any of the five routes, provided that a
  profile GitHub sends with a \<open>login\<close> also has an \<open>id\<close> and an \<open>html_url\<close>.
  What each route does to the store:

    \<^item> a callback that ends with success had a code, a state that decodes, a token and
      a profile with a \<open>login\<close>, both truthy, and a document for the user id of the
      state; it stores that document with the token, the login and the date, and with
      \<open>id\<close> and \<open>html_url\<close> copied as they come from the profile (the callback
      checks only \<open>login\<close>); under the condition on the profiles the stored document
      has all five fields set;

    \<^item> a callback that does not end with success leaves the store as it was;

    \<^item> \<open>disconnect\<close> stores the document of the caller with all five fields
      \<open>undefined\<close> when the document is found and the write succeeds, and leaves the
      store as it was when the lookup or the write fails or there is no document;

    \<^item> \<open>status\<close>, \<open>repositories\<close> and \<open>auth\<close> leave the store as it was.
\<close>

theorem linkage_invariant:
  "(linkage_inv db \<and> profile_contract e \<longrightarrow> linkage_inv (store (handle e db req))) \<and>
   (response (callback e db q) = success \<longrightarrow>
      (\<exists>code st d data p i u.
         q_code q = Some code \<and> q_state q = Some st \<and> decode_state st = Inr d \<and>
         token_exchange e code = Inr data \<and>
         fetch_profile e (field data (js ''access_token'')) = Inr p \<and>
         findById e db (field d (js ''userId'')) = Inr (Some (i, u)) \<and>
         truthy (field data (js ''access_token'')) \<and> truthy (field p (js ''login'')) \<and>
         store (callback e db q) =
           db(i \<mapsto> u\<lparr>githubAccessToken := field data (js ''access_token''),
                       githubUsername := field p (js ''login''),
                       githubId := field p (js ''id''),
                       githubProfileUrl := field p (js ''html_url''),
                       githubConnectedAt := JDate (now e)\<rparr>))) \<and>
   (response (callback e db q) = success \<and> profile_contract e \<longrightarrow>
      (\<exists>i u'. store (callback e db q) i = Some u' \<and> all_set u')) \<and>
   (response (callback e db q) \<noteq> success \<longrightarrow> store (callback e db q) = db) \<and>
   (\<not> find_fault e (JStr uid) \<and> \<not> save_fault e \<and> db uid = Some u0 \<longrightarrow>
      store (disconnect e db uid) =
        db(uid \<mapsto> u0\<lparr>githubAccessToken := JUndefined, githubUsername := JUndefined,
                      githubId := JUndefined, githubProfileUrl := JUndefined,
                      githubConnectedAt := JUndefined\<rparr>)) \<and>
   (find_fault e (JStr uid) \<or> save_fault e \<or> db uid = None \<longrightarrow>
      store (disconnect e db uid) = db) \<and>
   store (status e db uid) = db \<and>
   store (repositories e db uid) = db \<and>
   store (auth e db token) = db"
proof (intro conjI impI)
  show "linkage_inv (store (handle e db req))" if "linkage_inv db \<and> profile_contract e"
    using that handle_keeps_linkage [of db e req] by blast
  show "\<exists>code st d data p i u.
         q_code q = Some code \<and> q_state q = Some st \<and> decode_state st = Inr d \<and>
         token_exchange e code = Inr data \<and>
         fetch_profile e (field data (js ''access_token'')) = Inr p \<and>
         findById e db (field d (js ''userId'')) = Inr (Some (i, u)) \<and>
         truthy (field data (js ''access_token'')) \<and> truthy (field p (js ''login'')) \<and>
         store (callback e db q) =
           db(i \<mapsto> u\<lparr>githubAccessToken := field data (js ''access_token''),
                       githubUsername := field p (js ''login''),
                       githubId := field p (js ''id''),
                       githubProfileUrl := field p (js ''html_url''),
                       githubConnectedAt := JDate (now e)\<rparr>)"
    if "response (callback e db q) = success"
    using that by (rule callback_success_store)
  show "\<exists>i u'. store (callback e db q) i = Some u' \<and> all_set u'"
    if "response (callback e db q) = success \<and> profile_contract e"
    using that callback_success_all_set [of e db q] by blast
  show "store (callback e db q) = db" if "response (callback e db q) \<noteq> success"
    using that by (rule callback_failure_store_same)
  show "store (disconnect e db uid) =
        db(uid \<mapsto> u0\<lparr>githubAccessToken := JUndefined, githubUsername := JUndefined,
                      githubId := JUndefined, githubProfileUrl := JUndefined,
                      githubConnectedAt := JUndefined\<rparr>)"
    if "\<not> find_fault e (JStr uid) \<and> \<not> save_fault e \<and> db uid = Some u0"
    using that disconnect_clears [of e uid db u0] by blast
  show "store (disconnect e db uid) = db"
    if "find_fault e (JStr uid) \<or> save_fault e \<or> db uid = None"
    using that by (rule disconnect_fault_store)
qed simp_all

text \<open>
  The invariant at work: an unlinked user completes the authorization and ends with all
  five fields set; \<open>disconnect\<close> clears all five again, and \<open>status\<close> changes
  nothing.
\<close>

theorem linkage_invariant_witness:
  "linkage_inv [js ''u1'' \<mapsto> user_unlinked] \<and> profile_contract env_ok \<and>
   response (callback env_ok [js ''u1'' \<mapsto> user_unlinked] query_u1) = success \<and>
   store (handle env_ok [js ''u1'' \<mapsto> user_unlinked] (GetCallback query_u1))
     = [js ''u1'' \<mapsto> user_linked] \<and>
   linkage_inv [js ''u1'' \<mapsto> user_linked] \<and> all_set user_linked \<and>
   \<not> find_fault env_ok (JStr (js ''u1'')) \<and> \<not> save_fault env_ok \<and>
   store (disconnect env_ok [js ''u1'' \<mapsto> user_linked] (js ''u1''))
     = [js ''u1'' \<mapsto> user_unlinked] \<and>
   store (status env_ok [js ''u1'' \<mapsto> user_linked] (js ''u1''))
     = [js ''u1'' \<mapsto> user_linked]"
proof -
  have s: "store (handle env_ok [js ''u1'' \<mapsto> user_unlinked] (GetCallback query_u1))
     = [js ''u1'' \<mapsto> user_linked]"
    and r: "response (callback env_ok [js ''u1'' \<mapsto> user_unlinked] query_u1) = success"
    by (simp_all add: callback_u1_ok)
  have h: "\<not> find_fault env_ok (JStr (js ''u1''))" "\<not> save_fault env_ok"
    "[js ''u1'' \<mapsto> user_linked] (js ''u1'') = Some user_linked"
    by (simp_all add: env_ok_def)
  note inst1 = linkage_invariant [where e = env_ok and db = "[js ''u1'' \<mapsto> user_unlinked]"
      and req = "GetCallback query_u1"]
  note inst2 = linkage_invariant [where e = env_ok and db = "[js ''u1'' \<mapsto> user_linked]"
      and uid = "js ''u1''" and ?u0.0 = user_linked]
  from inst1 linkage_inv_unlinked profile_contract_ok
  have "linkage_inv (store (handle env_ok [js ''u1'' \<mapsto> user_unlinked] (GetCallback query_u1)))"
    by blast
  then have inv: "linkage_inv [js ''u1'' \<mapsto> user_linked]"
    by (simp only: s)
  from inst2 h
  have "store (disconnect env_ok [js ''u1'' \<mapsto> user_linked] (js ''u1'')) =
      [js ''u1'' \<mapsto> user_linked](js ''u1'' \<mapsto>
        user_linked\<lparr>githubAccessToken := JUndefined, githubUsername := JUndefined,
                      githubId := JUndefined, githubProfileUrl := JUndefined,
                      githubConnectedAt := JUndefined\<rparr>)"
    by blast
  then have d: "store (disconnect env_ok [js ''u1'' \<mapsto> user_linked] (js ''u1''))
     = [js ''u1'' \<mapsto> user_unlinked]"
    by (simp add: user_linked_def user_unlinked_def)
  have "all_set user_linked"
    by (simp add: all_set_def user_linked_def)
  moreover from inst2
  have "store (status env_ok [js ''u1'' \<mapsto> user_linked] (js ''u1''))
     = [js ''u1'' \<mapsto> user_linked]"
    by blast
  ultimately show ?thesis
    using linkage_inv_unlinked profile_contract_ok r s inv h(1,2) d by simp
qed

text \<open>
  Without the condition on the profile the invariant fails: for a profile that has a
  \<open>login\<close> and nothing else the callback succeeds and stores a document whose token,
  user name and date are set while \<open>githubId\<close> and \<open>githubProfileUrl\<close> are
  \<open>undefined\<close>.
\<close>

theorem linkage_partial_counterexample:
  "linkage_inv [js ''u1'' \<mapsto> user_unlinked] \<and>
   response (callback env_login_only [js ''u1'' \<mapsto> user_unlinked] query_u1) = success \<and>
   store (callback env_login_only [js ''u1'' \<mapsto> user_unlinked] query_u1) (js ''u1'')
     = Some user_partial \<and>
   \<not> all_set user_partial \<and> \<not> all_cleared user_partial"
proof -
  have "callback env_login_only [js ''u1'' \<mapsto> user_unlinked] query_u1 =
     \<lparr>response = success, store = [js ''u1'' \<mapsto> user_partial],
      effects =
        [Outbound token_url, Outbound profile_url,
         Assign GithubAccessToken (JStr (js ''tok'')),
         Assign GithubUsername (JStr (js ''octo'')),
         Assign GithubId JUndefined,
         Assign GithubProfileUrl JUndefined,
         Assign GithubConnectedAt (JDate 1000),
         SaveCall (js ''u1'')]\<rparr>"
    by (simp add: callback_def query_u1_def present_def decode_state_u1 get_prop_def failed_def
        env_login_only_def env_ok_def findById_def save_def Let_def select_default_def
        user_unlinked_def user_partial_def)
  then show ?thesis
    using linkage_inv_unlinked
    by (simp add: all_set_def all_cleared_def user_partial_def)
qed

section \<open>Failures of the callback\<close>

text \<open>
  C2. Whenever the callback ends with a failure reason, the store is what it was before
  the call. On every such path but one, no linkage field has been assigned and \<open>save\<close>
  has not been called. The exception is the path on which \<open>save\<close> itself raises:
  there the reason is \<open>server_error\<close>, \<open>save\<close> has been called, and each of the five
  fields of the loaded document has been assigned.
\<close>

theorem callback_failure_leaves_store:
  "response (callback e db q) = failure r \<Longrightarrow>
   store (callback e db q) = db \<and>
   ((\<forall>f v. Assign f v \<notin> set (effects (callback e db q))) \<and>
    (\<forall>i. SaveCall i \<notin> set (effects (callback e db q)))
    \<or> save_fault e \<and> r = ServerError \<and>
      (\<exists>i. SaveCall i \<in> set (effects (callback e db q))) \<and>
      (\<forall>f. \<exists>v. Assign f v \<in> set (effects (callback e db q))))"
proof -
  have all: "\<exists>v. f = GithubAccessToken \<and> v = v1 \<or> f = GithubUsername \<and> v = v2 \<or>
      f = GithubId \<and> v = v3 \<or> f = GithubProfileUrl \<and> v = v4 \<or>
      f = GithubConnectedAt \<and> v = v5"
    for f :: fieldname and v1 v2 v3 v4 v5 :: jsval
    by (cases f) simp_all
  assume "response (callback e db q) = failure r"
  then show ?thesis
    by (auto simp add: callback_def failed_def save_def Let_def all
        split: if_splits sum.splits option.splits prod.splits)
qed

text \<open>
  A request without \<open>state\<close> fails with \<open>missing_params\<close> and touches nothing. When
  the token exchange raises, the callback answers \<open>server_error\<close> after the one
  outbound call, with no field assigned and \<open>save\<close> not called, also where the store
  would refuse a write.
\<close>

theorem callback_failure_leaves_store_witness:
  "response (callback env_ok [js ''u1'' \<mapsto> user_linked] query_no_state) = failure MissingParams \<and>
   store (callback env_ok [js ''u1'' \<mapsto> user_linked] query_no_state)
     = [js ''u1'' \<mapsto> user_linked] \<and>
   effects (callback env_ok [js ''u1'' \<mapsto> user_linked] query_no_state) = [] \<and>
   save_fault env_exchange_store_down \<and>
   response (callback env_exchange_store_down [js ''u1'' \<mapsto> user_linked] query_u1) = failure ServerError \<and>
   effects (callback env_exchange_store_down [js ''u1'' \<mapsto> user_linked] query_u1) = [Outbound token_url] \<and>
   store (callback env_exchange_store_down [js ''u1'' \<mapsto> user_linked] query_u1)
     = [js ''u1'' \<mapsto> user_linked]"
proof -
  have r: "response (callback env_ok [js ''u1'' \<mapsto> user_linked] query_no_state)
      = failure MissingParams"
    by (simp add: callback_def query_no_state_def present_def failed_def)
  have e: "effects (callback env_ok [js ''u1'' \<mapsto> user_linked] query_no_state) = []"
    by (simp add: callback_def query_no_state_def present_def failed_def)
  from callback_failure_leaves_store [OF r]
  have s: "store (callback env_ok [js ''u1'' \<mapsto> user_linked] query_no_state)
     = [js ''u1'' \<mapsto> user_linked]"
    by blast
  have r2: "response (callback env_exchange_store_down [js ''u1'' \<mapsto> user_linked] query_u1)
      = failure ServerError"
    by (simp add: callback_def query_u1_def present_def failed_def decode_state_u1 get_prop_def
        env_exchange_store_down_def env_store_down_def env_ok_def)
  have e2: "effects (callback env_exchange_store_down [js ''u1'' \<mapsto> user_linked] query_u1)
      = [Outbound token_url]"
    by (simp add: callback_def query_u1_def present_def failed_def decode_state_u1 get_prop_def
        env_exchange_store_down_def env_store_down_def env_ok_def)
  from callback_failure_leaves_store [OF r2]
  have s2: "store (callback env_exchange_store_down [js ''u1'' \<mapsto> user_linked] query_u1)
     = [js ''u1'' \<mapsto> user_linked]"
    by blast
  have "save_fault env_exchange_store_down"
    by (simp add: env_exchange_store_down_def env_store_down_def)
  with r e s r2 e2 s2 show ?thesis by simp
qed

text \<open>
  When the store refuses the write, the callback has assigned the five fields and called
  \<open>save\<close> before it answers \<open>server_error\<close>.
\<close>

theorem callback_save_failure_counterexample:
  "response (callback env_store_down [js ''u1'' \<mapsto> user_unlinked] query_u1)
     = failure ServerError \<and>
   effects (callback env_store_down [js ''u1'' \<mapsto> user_unlinked] query_u1) =
     [Outbound token_url, Outbound profile_url,
      Assign GithubAccessToken (JStr (js ''tok'')),
      Assign GithubUsername (JStr (js ''octo'')),
      Assign GithubId (JNum 1),
      Assign GithubProfileUrl (JStr (js ''https://github.com/octo'')),
      Assign GithubConnectedAt (JDate 1000),
      SaveCall (js ''u1'')]"
  by (simp add: callback_def query_u1_def present_def decode_state_u1 get_prop_def failed_def
      env_store_down_def env_ok_def profile_octo_def findById_def save_def Let_def)

section \<open>The state parameter survives the round trip\<close>

text \<open>
  C3. For every user id, \<open>/auth\<close> answers that OAuth is not configured or redirects
  to a URL that ends with \<open>state=\<close> and the state written for the id (the base64
  form of the JSON text of \<open>{ userId: id }\<close>), and the callback reads that state back
  (base64, then \<open>JSON.parse\<close>, then the property \<open>userId\<close>) as exactly that id.
\<close>

theorem state_roundtrip:
  "(auth_redirect e uid = Json 500 (message ''GitHub OAuth not configured'') \<or>
    (\<exists>url. auth_redirect e uid = Redirect (url @ js ''state='' @ encode_state uid))) \<and>
   decode_state (encode_state uid) = Inr (JObj [(js ''userId'', JStr uid)]) \<and>
   get_prop (JObj [(js ''userId'', JStr uid)]) (js ''userId'') = Inr (JStr uid)"
proof (intro conjI)
  show "auth_redirect e uid = Json 500 (message ''GitHub OAuth not configured'') \<or>
    (\<exists>url. auth_redirect e uid = Redirect (url @ js ''state='' @ encode_state uid))"
  proof (cases "client_id e")
    case None
    then show ?thesis by (simp add: auth_redirect_def)
  next
    case (Some cid)
    show ?thesis
    proof (cases "cid = []")
      case True
      then show ?thesis using Some by (simp add: auth_redirect_def)
    next
      case False
      have "auth_redirect e uid = Redirect
          ((js ''https://github.com/login/oauth/authorize?'' @ js ''client_id='' @ cid @
            js ''&'' @ js ''redirect_uri='' @ js (encodeURIComponent github_callback_url) @
            js ''&'' @ js ''scope=repo&'') @ js ''state='' @ encode_state uid)"
        using Some False by (simp add: auth_redirect_def)
      then show ?thesis by blast
    qed
  qed
  show "decode_state (encode_state uid) = Inr (JObj [(js ''userId'', JStr uid)])"
    by (rule decode_encode_state)
  show "get_prop (JObj [(js ''userId'', JStr uid)]) (js ''userId'') = Inr (JStr uid)"
    by (simp add: get_prop_def)
qed

text \<open>For the id \<open>u1\<close> the state is \<open>eyJ1c2VySWQiOiJ1MSJ9\<close>.\<close>

theorem state_roundtrip_witness:
  "encode_state (js ''u1'') = js ''eyJ1c2VySWQiOiJ1MSJ9'' \<and>
   decode_state (js ''eyJ1c2VySWQiOiJ1MSJ9'') = Inr (JObj [(js ''userId'', JStr (js ''u1''))])"
  using state_roundtrip [of env_ok "js ''u1''"] by (simp add: encode_state_u1)

section \<open>The reasons of the callback\<close>




section \<open>A state that is the JSON text \<open>null\<close>\<close>

text \<open>
  C5. The state \<open>bnVsbA==\<close> is the base64 form of \<open>null\<close>. \<open>JSON.parse\<close> accepts
  it, the access to \<open>userId\<close> on \<open>null\<close> raises outside the inner \<open>try\<close>, and the
  callback answers \<open>server_error\<close>, not \<open>invalid_state\<close>, whatever the surroundings
  and the store are.
\<close>

theorem callback_null_state_server_error:
  "decode_state (js ''bnVsbA=='') = Inr JNull \<and>
   response (callback e db
     \<lparr>q_code = Some (js ''abc''), q_state = Some (js ''bnVsbA==''), q_error = None\<rparr>)
     = failure ServerError \<and>
   failure ServerError \<noteq> failure InvalidState"
  by (simp add: callback_null_state decode_state_null)

theorem callback_null_state_server_error_witness:
  "response (callback env_ok no_users
     \<lparr>q_code = Some (js ''abc''), q_state = Some (js ''bnVsbA==''), q_error = None\<rparr>)
     = failure ServerError"
  using callback_null_state_server_error [of env_ok no_users] by simp

section \<open>The status of the connection\<close>

text \<open>
  C6. For a caller whose document exists, \<open>/status\<close> answers 200 with exactly the
  properties \<open>success\<close>, \<open>connected\<close>, \<open>githubUsername\<close> and \<open>connectedAt\<close>:
  \<open>connected\<close> is true exactly when \<open>githubUsername\<close> holds a truthy value (it is
  set), the two other properties are the stored values, or \<open>null\<close> where there is none.
  The answer does not depend on the stored access token: replacing the token by any
  value leaves the answer as it is.
\<close>

theorem status_projection:
  assumes "\<not> find_fault e (JStr uid)" and "db uid = Some u"
  shows "status e db uid =
           \<lparr>response = Json 200 (JObj
              [(js ''success'', JBool True),
               (js ''connected'', JBool (truthy (githubUsername u))),
               (js ''githubUsername'',
                  if truthy (githubUsername u) then githubUsername u else JNull),
               (js ''connectedAt'',
                  if truthy (githubConnectedAt u) then githubConnectedAt u else JNull)]),
            store = db, effects = []\<rparr>
         \<and> response (status e (db(uid \<mapsto> u\<lparr>githubAccessToken := t\<rparr>)) uid) =
             response (status e db uid)"
  using assms by (simp add: status_def findById_def select_status_def js_or_def)

theorem status_projection_witness:
  "\<not> find_fault env_ok (JStr (js ''u1'')) \<and>
   [js ''u1'' \<mapsto> user_linked] (js ''u1'') = Some user_linked \<and>
   response (status env_ok [js ''u1'' \<mapsto> user_linked] (js ''u1'')) =
     Json 200 (JObj
       [(js ''success'', JBool True), (js ''connected'', JBool True),
        (js ''githubUsername'', JStr (js ''octo'')), (js ''connectedAt'', JDate 1000)]) \<and>
   response (status env_ok
       [js ''u1'' \<mapsto> user_linked\<lparr>githubAccessToken := JStr (js ''other'')\<rparr>] (js ''u1'')) =
     response (status env_ok [js ''u1'' \<mapsto> user_linked] (js ''u1''))"
proof -
  have h: "\<not> find_fault env_ok (JStr (js ''u1''))"
    "[js ''u1'' \<mapsto> user_linked] (js ''u1'') = Some user_linked"
    by (simp_all add: env_ok_def)
  from status_projection [where e = env_ok and uid = "js ''u1''"
      and db = "[js ''u1'' \<mapsto> user_linked]" and u = user_linked
      and t = "JStr (js ''other'')", OF h] h
  show ?thesis
    by (simp add: user_linked_def)
qed

section \<open>Disconnecting\<close>

text \<open>
  C7. For a caller whose document exists, \<open>/disconnect\<close> answers with the success
  acknowledgment. When none of the linkage fields of the document is set, \<open>/status\<close>
  and \<open>/repositories\<close> answer after the call as they did before it, and when the
  fields are absent the store after the call is the store before it. For any store and
  caller, a second \<open>/disconnect\<close> leaves the store of the first one as it is and
  answers as the first one did.
\<close>

theorem disconnect_idempotent:
  "(\<not> find_fault e (JStr uid) \<and> \<not> save_fault e \<and> db uid = Some u \<longrightarrow>
      response (disconnect e db uid) = Json 200 (JObj
        [(js ''success'', JBool True),
         (js ''message'', JStr (js ''GitHub account disconnected successfully''))])
      \<and> (all_cleared u \<longrightarrow>
            response (status e (store (disconnect e db uid)) uid) = response (status e db uid) \<and>
            response (repositories e (store (disconnect e db uid)) uid)
              = response (repositories e db uid))
      \<and> (all_absent u \<longrightarrow> store (disconnect e db uid) = db))
   \<and> store (disconnect e (store (disconnect e db uid)) uid) = store (disconnect e db uid)
   \<and> response (disconnect e (store (disconnect e db uid)) uid) = response (disconnect e db uid)"
proof (intro conjI impI)
  assume a: "\<not> find_fault e (JStr uid) \<and> \<not> save_fault e \<and> db uid = Some u"
  then have s: "store (disconnect e db uid) =
      db(uid \<mapsto> u\<lparr>githubAccessToken := JUndefined, githubUsername := JUndefined,
                   githubId := JUndefined, githubProfileUrl := JUndefined,
                   githubConnectedAt := JUndefined\<rparr>)"
    by (simp add: disconnect_def findById_def save_def select_default_def)
  show "response (disconnect e db uid) = Json 200 (JObj
        [(js ''success'', JBool True),
         (js ''message'', JStr (js ''GitHub account disconnected successfully''))])"
    using a by (simp add: disconnect_def findById_def save_def)
  show "response (status e (store (disconnect e db uid)) uid) = response (status e db uid)"
    if "all_cleared u"
    using a that unfolding s
    by (simp add: status_def findById_def select_status_def js_or_def all_cleared_def)
  show "response (repositories e (store (disconnect e db uid)) uid)
      = response (repositories e db uid)"
    if "all_cleared u"
    using a that unfolding s
    by (simp add: repositories_def findById_def all_cleared_def)
  show "store (disconnect e db uid) = db" if "all_absent u"
    using a that unfolding s
    by (simp add: all_absent_def fun_upd_idem_iff)
next
  show "store (disconnect e (store (disconnect e db uid)) uid) = store (disconnect e db uid)"
    by (cases "db uid")
       (auto simp add: disconnect_def findById_def save_def select_default_def)
  show "response (disconnect e (store (disconnect e db uid)) uid) = response (disconnect e db uid)"
    by (cases "db uid")
       (auto simp add: disconnect_def findById_def save_def select_default_def)
qed

theorem disconnect_idempotent_witness:
  "\<not> find_fault env_ok (JStr (js ''u1'')) \<and> \<not> save_fault env_ok \<and>
   [js ''u1'' \<mapsto> user_unlinked] (js ''u1'') = Some user_unlinked \<and>
   all_cleared user_unlinked \<and> all_absent user_unlinked \<and>
   response (disconnect env_ok [js ''u1'' \<mapsto> user_unlinked] (js ''u1'')) = Json 200 (JObj
        [(js ''success'', JBool True),
         (js ''message'', JStr (js ''GitHub account disconnected successfully''))]) \<and>
   store (disconnect env_ok [js ''u1'' \<mapsto> user_unlinked] (js ''u1''))
     = [js ''u1'' \<mapsto> user_unlinked]"
proof -
  have h: "\<not> find_fault env_ok (JStr (js ''u1''))" "\<not> save_fault env_ok"
    "[js ''u1'' \<mapsto> user_unlinked] (js ''u1'') = Some user_unlinked"
    "all_cleared user_unlinked" "all_absent user_unlinked"
    by (simp_all add: env_ok_def all_cleared_def all_absent_def user_unlinked_def)
  from disconnect_idempotent [where e = env_ok and uid = "js ''u1''"
      and db = "[js ''u1'' \<mapsto> user_unlinked]" and u = user_unlinked] h
  show ?thesis by blast
qed

text \<open>
  C10. When there is no document for the caller, the assignments of \<open>/disconnect\<close>
  raise on \<open>null\<close> and the handler answers 500 with its error message, not the success
  acknowledgment; nothing is assigned, nothing is saved.
\<close>

theorem disconnect_missing_record:
  assumes "\<not> find_fault e (JStr uid)" and "db uid = None"
  shows "disconnect e db uid =
           \<lparr>response = Json 500 (message ''Failed to disconnect GitHub account''),
            store = db, effects = []\<rparr>"
  using assms by (simp add: disconnect_def findById_def)

theorem disconnect_missing_record_witness:
  "\<not> find_fault env_ok (JStr (js ''u2'')) \<and>
   [js ''u1'' \<mapsto> user_linked] (js ''u2'') = None \<and>
   disconnect env_ok [js ''u1'' \<mapsto> user_linked] (js ''u2'') =
     \<lparr>response = Json 500 (message ''Failed to disconnect GitHub account''),
      store = [js ''u1'' \<mapsto> user_linked], effects = []\<rparr>"
proof -
  have h: "\<not> find_fault env_ok (JStr (js ''u2''))"
    "[js ''u1'' \<mapsto> user_linked] (js ''u2'') = None"
    by (simp_all add: env_ok_def)
  from disconnect_missing_record [where e = env_ok and uid = "js ''u2''"
      and db = "[js ''u1'' \<mapsto> user_linked]", OF h] h
  show ?thesis by blast
qed

section \<open>Listing the repositories\<close>

text \<open>
  C8. For a caller whose document exists without a stored access token,
  \<open>/repositories\<close> answers 400 with the message that the account is not connected,
  and makes no outbound call.
\<close>

theorem repositories_not_linked:
  assumes "\<not> find_fault e (JStr uid)" and "db uid = Some u"
    and "\<not> truthy (githubAccessToken u)"
  shows "repositories e db uid =
           \<lparr>response = Json 400 (message ''GitHub account not connected''),
            store = db, effects = []\<rparr>"
  using assms by (simp add: repositories_def findById_def)

theorem repositories_not_linked_witness:
  "\<not> find_fault env_ok (JStr (js ''u1'')) \<and>
   [js ''u1'' \<mapsto> user_unlinked] (js ''u1'') = Some user_unlinked \<and>
   \<not> truthy (githubAccessToken user_unlinked) \<and>
   repositories env_ok [js ''u1'' \<mapsto> user_unlinked] (js ''u1'') =
     \<lparr>response = Json 400 (message ''GitHub account not connected''),
      store = [js ''u1'' \<mapsto> user_unlinked], effects = []\<rparr>"
proof -
  have h: "\<not> find_fault env_ok (JStr (js ''u1''))"
    "[js ''u1'' \<mapsto> user_unlinked] (js ''u1'') = Some user_unlinked"
    "\<not> truthy (githubAccessToken user_unlinked)"
    by (simp_all add: env_ok_def user_unlinked_def)
  from repositories_not_linked [where e = env_ok and uid = "js ''u1''"
      and db = "[js ''u1'' \<mapsto> user_unlinked]" and u = user_unlinked, OF h] h
  show ?thesis by blast
qed

text \<open>
  C9. When GitHub answers with an array of \<open>N\<close> entries none of which is \<open>null\<close>,
  \<open>/repositories\<close> answers 200 with \<open>N\<close> summaries in the same order. The object the
  handler builds for an entry has the properties \<open>id\<close>, \<open>name\<close>, \<open>fullName\<close>,
  \<open>description\<close>, \<open>private\<close>, \<open>htmlUrl\<close>, \<open>language\<close>, \<open>updatedAt\<close>,
  \<open>stargazersCount\<close>, \<open>forksCount\<close>, with the values of \<open>id\<close>, \<open>name\<close>,
  \<open>full_name\<close>, \<open>description\<close>, \<open>private\<close>, \<open>html_url\<close>, \<open>language\<close>,
  \<open>updated_at\<close>, \<open>stargazers_count\<close>, \<open>forks_count\<close> of the entry. Read by name,
  a summary has under each of these names what the entry has under the name it comes
  from, and nothing under any other name. What reaches the reply of a summary are
  those of the ten properties whose value in the entry is not \<open>undefined\<close>, in the
  order above: a property the entry lacks is left out of the reply.
\<close>

theorem repositories_mapping:
  assumes "\<not> find_fault e (JStr uid)" and "db uid = Some u"
    and "truthy (githubAccessToken u)"
    and "fetch_repos e (githubAccessToken u) = Inr (JArr rs)"
    and "\<forall>r\<in>set rs. r \<noteq> JNull \<and> r \<noteq> JUndefined"
  shows "\<exists>out. response (repositories e db uid) = Json 200 (JObj
           [(js ''success'', JBool True), (js ''repositories'', JArr out)])
         \<and> length out = length rs
         \<and> (\<forall>i<length rs. out ! i = JObj
              [(js ''id'', field (rs ! i) (js ''id'')),
               (js ''name'', field (rs ! i) (js ''name'')),
               (js ''fullName'', field (rs ! i) (js ''full_name'')),
               (js ''description'', field (rs ! i) (js ''description'')),
               (js ''private'', field (rs ! i) (js ''private'')),
               (js ''htmlUrl'', field (rs ! i) (js ''html_url'')),
               (js ''language'', field (rs ! i) (js ''language'')),
               (js ''updatedAt'', field (rs ! i) (js ''updated_at'')),
               (js ''stargazersCount'', field (rs ! i) (js ''stargazers_count'')),
               (js ''forksCount'', field (rs ! i) (js ''forks_count''))]
            \<and> (\<forall>k. field (out ! i) k =
                  (case map_of spec_summary_fields k of
                     None \<Rightarrow> JUndefined
                   | Some k' \<Rightarrow> field (rs ! i) k'))
            \<and> sent_properties (out ! i) =
                filter (\<lambda>(k, x). x \<noteq> JUndefined)
                  (map (\<lambda>(k, k'). (k, field (rs ! i) k')) spec_summary_fields))"
proof -
  from map_exn_repo_summary [OF assms(5)] obtain out where
    out: "map_exn repo_summary rs = Inr out" "length out = length rs"
      "\<forall>i<length rs. repo_summary (rs ! i) = Inr (out ! i)" by blast
  have resp: "response (repositories e db uid) = Json 200 (JObj
           [(js ''success'', JBool True), (js ''repositories'', JArr out)])"
    using assms(1-4) out(1) by (simp add: repositories_def findById_def js_map_def)
  have "\<forall>i<length rs. out ! i = JObj
              [(js ''id'', field (rs ! i) (js ''id'')),
               (js ''name'', field (rs ! i) (js ''name'')),
               (js ''fullName'', field (rs ! i) (js ''full_name'')),
               (js ''description'', field (rs ! i) (js ''description'')),
               (js ''private'', field (rs ! i) (js ''private'')),
               (js ''htmlUrl'', field (rs ! i) (js ''html_url'')),
               (js ''language'', field (rs ! i) (js ''language'')),
               (js ''updatedAt'', field (rs ! i) (js ''updated_at'')),
               (js ''stargazersCount'', field (rs ! i) (js ''stargazers_count'')),
               (js ''forksCount'', field (rs ! i) (js ''forks_count''))]
            \<and> (\<forall>k. field (out ! i) k =
                  (case map_of spec_summary_fields k of
                     None \<Rightarrow> JUndefined
                   | Some k' \<Rightarrow> field (rs ! i) k'))
            \<and> sent_properties (out ! i) =
                filter (\<lambda>(k, x). x \<noteq> JUndefined)
                  (map (\<lambda>(k, k'). (k, field (rs ! i) k')) spec_summary_fields)"
  proof (intro allI impI)
    fix i assume i: "i < length rs"
    then have "rs ! i \<in> set rs" by simp
    with assms(5) have "rs ! i \<noteq> JNull \<and> rs ! i \<noteq> JUndefined" by blast
    moreover from out(3) i have "repo_summary (rs ! i) = Inr (out ! i)" by blast
    ultimately have eq: "out ! i = JObj
              [(js ''id'', field (rs ! i) (js ''id'')),
               (js ''name'', field (rs ! i) (js ''name'')),
               (js ''fullName'', field (rs ! i) (js ''full_name'')),
               (js ''description'', field (rs ! i) (js ''description'')),
               (js ''private'', field (rs ! i) (js ''private'')),
               (js ''htmlUrl'', field (rs ! i) (js ''html_url'')),
               (js ''language'', field (rs ! i) (js ''language'')),
               (js ''updatedAt'', field (rs ! i) (js ''updated_at'')),
               (js ''stargazersCount'', field (rs ! i) (js ''stargazers_count'')),
               (js ''forksCount'', field (rs ! i) (js ''forks_count''))]"
      by (simp add: repo_summary_def)
    then have m: "out ! i = JObj (map (\<lambda>(k, k'). (k, field (rs ! i) k')) spec_summary_fields)"
      by (simp only: summary_as_map)
    have f: "\<forall>k. field (out ! i) k =
                  (case map_of spec_summary_fields k of
                     None \<Rightarrow> JUndefined
                   | Some k' \<Rightarrow> field (rs ! i) k')"
      unfolding m by (intro allI) (rule field_summary)
    have p: "sent_properties (out ! i) =
                filter (\<lambda>(k, x). x \<noteq> JUndefined)
                  (map (\<lambda>(k, k'). (k, field (rs ! i) k')) spec_summary_fields)"
      unfolding m by (rule sent_properties_summary)
    from eq f p show "out ! i = JObj
              [(js ''id'', field (rs ! i) (js ''id'')),
               (js ''name'', field (rs ! i) (js ''name'')),
               (js ''fullName'', field (rs ! i) (js ''full_name'')),
               (js ''description'', field (rs ! i) (js ''description'')),
               (js ''private'', field (rs ! i) (js ''private'')),
               (js ''htmlUrl'', field (rs ! i) (js ''html_url'')),
               (js ''language'', field (rs ! i) (js ''language'')),
               (js ''updatedAt'', field (rs ! i) (js ''updated_at'')),
               (js ''stargazersCount'', field (rs ! i) (js ''stargazers_count'')),
               (js ''forksCount'', field (rs ! i) (js ''forks_count''))]
            \<and> (\<forall>k. field (out ! i) k =
                  (case map_of spec_summary_fields k of
                     None \<Rightarrow> JUndefined
                   | Some k' \<Rightarrow> field (rs ! i) k'))
            \<and> sent_properties (out ! i) =
                filter (\<lambda>(k, x). x \<noteq> JUndefined)
                  (map (\<lambda>(k, k'). (k, field (rs ! i) k')) spec_summary_fields)"
      by (intro conjI)
  qed
  with resp out(2) show ?thesis by blast
qed

text \<open>
  Two entries that have three and two of the properties: the reply carries \<open>id\<close>,
  \<open>name\<close> and \<open>fullName\<close> for the first, \<open>id\<close> and \<open>private\<close> for the second.
\<close>

theorem repositories_mapping_witness:
  "\<not> find_fault env_ok (JStr (js ''u1'')) \<and>
   [js ''u1'' \<mapsto> user_linked] (js ''u1'') = Some user_linked \<and>
   truthy (githubAccessToken user_linked) \<and>
   fetch_repos env_ok (githubAccessToken user_linked) = Inr (JArr repos_two) \<and>
   JNull \<notin> set repos_two \<and> JUndefined \<notin> set repos_two \<and>
   response (repositories env_ok [js ''u1'' \<mapsto> user_linked] (js ''u1'')) = Json 200 (JObj
     [(js ''success'', JBool True),
      (js ''repositories'', JArr
        [JObj
          [(js ''id'', JNum 7),
           (js ''name'', JStr (js ''echo'')),
           (js ''fullName'', JStr (js ''octo/echo'')),
           (js ''description'', JUndefined),
           (js ''private'', JUndefined),
           (js ''htmlUrl'', JUndefined),
           (js ''language'', JUndefined),
           (js ''updatedAt'', JUndefined),
           (js ''stargazersCount'', JUndefined),
           (js ''forksCount'', JUndefined)],
         JObj
          [(js ''id'', JNum 8),
           (js ''name'', JUndefined),
           (js ''fullName'', JUndefined),
           (js ''description'', JUndefined),
           (js ''private'', JBool True),
           (js ''htmlUrl'', JUndefined),
           (js ''language'', JUndefined),
           (js ''updatedAt'', JUndefined),
           (js ''stargazersCount'', JUndefined),
           (js ''forksCount'', JUndefined)]])]) \<and>
   (\<exists>out. response (repositories env_ok [js ''u1'' \<mapsto> user_linked] (js ''u1'')) =
       Json 200 (JObj [(js ''success'', JBool True), (js ''repositories'', JArr out)]) \<and>
     map sent_properties out =
        [[(js ''id'', JNum 7), (js ''name'', JStr (js ''echo'')),
          (js ''fullName'', JStr (js ''octo/echo''))],
         [(js ''id'', JNum 8), (js ''private'', JBool True)]])"
proof -
  have h: "\<not> find_fault env_ok (JStr (js ''u1''))"
    "[js ''u1'' \<mapsto> user_linked] (js ''u1'') = Some user_linked"
    "truthy (githubAccessToken user_linked)"
    "fetch_repos env_ok (githubAccessToken user_linked) = Inr (JArr repos_two)"
    "\<forall>r\<in>set repos_two. r \<noteq> JNull \<and> r \<noteq> JUndefined"
    by (simp_all add: env_ok_def user_linked_def repos_two_def)
  from repositories_mapping [where e = env_ok and uid = "js ''u1''"
      and db = "[js ''u1'' \<mapsto> user_linked]" and u = user_linked and rs = repos_two, OF h]
  obtain out where out:
    "response (repositories env_ok [js ''u1'' \<mapsto> user_linked] (js ''u1'')) = Json 200 (JObj
       [(js ''success'', JBool True), (js ''repositories'', JArr out)])"
    "length out = length repos_two"
    "\<forall>i<length repos_two. out ! i = JObj
              [(js ''id'', field (repos_two ! i) (js ''id'')),
               (js ''name'', field (repos_two ! i) (js ''name'')),
               (js ''fullName'', field (repos_two ! i) (js ''full_name'')),
               (js ''description'', field (repos_two ! i) (js ''description'')),
               (js ''private'', field (repos_two ! i) (js ''private'')),
               (js ''htmlUrl'', field (repos_two ! i) (js ''html_url'')),
               (js ''language'', field (repos_two ! i) (js ''language'')),
               (js ''updatedAt'', field (repos_two ! i) (js ''updated_at'')),
               (js ''stargazersCount'', field (repos_two ! i) (js ''stargazers_count'')),
               (js ''forksCount'', field (repos_two ! i) (js ''forks_count''))]
            \<and> (\<forall>k. field (out ! i) k =
                  (case map_of spec_summary_fields k of
                     None \<Rightarrow> JUndefined
                   | Some k' \<Rightarrow> field (repos_two ! i) k'))
            \<and> sent_properties (out ! i) =
                filter (\<lambda>(k, x). x \<noteq> JUndefined)
                  (map (\<lambda>(k, k'). (k, field (repos_two ! i) k')) spec_summary_fields)"
    by blast
  have len: "length repos_two = 2" by (simp add: repos_two_def)
  have lt: "0 < length repos_two" "1 < length repos_two"
    using len by simp_all
  note a0 = out(3) [rule_format, OF lt(1)] and a1 = out(3) [rule_format, OF lt(2)]
  have l2: "length out = 2"
    using out(2) len by simp
  then have o: "out = [out ! 0, out ! 1]"
    by (rule list_two)
  have o0: "out ! 0 = JObj
          [(js ''id'', JNum 7),
           (js ''name'', JStr (js ''echo'')),
           (js ''fullName'', JStr (js ''octo/echo'')),
           (js ''description'', JUndefined),
           (js ''private'', JUndefined),
           (js ''htmlUrl'', JUndefined),
           (js ''language'', JUndefined),
           (js ''updatedAt'', JUndefined),
           (js ''stargazersCount'', JUndefined),
           (js ''forksCount'', JUndefined)]"
    unfolding a0 [THEN conjunct1] by (simp add: repos_two_def)
  have o1: "out ! 1 = JObj
          [(js ''id'', JNum 8),
           (js ''name'', JUndefined),
           (js ''fullName'', JUndefined),
           (js ''description'', JUndefined),
           (js ''private'', JBool True),
           (js ''htmlUrl'', JUndefined),
           (js ''language'', JUndefined),
           (js ''updatedAt'', JUndefined),
           (js ''stargazersCount'', JUndefined),
           (js ''forksCount'', JUndefined)]"
    unfolding a1 [THEN conjunct1] by (simp add: repos_two_def)
  have s0: "sent_properties (out ! 0) =
      [(js ''id'', JNum 7), (js ''name'', JStr (js ''echo'')),
       (js ''fullName'', JStr (js ''octo/echo''))]"
    unfolding a0 [THEN conjunct2, THEN conjunct2]
    by (simp add: repos_two_def spec_summary_fields_def)
  have s1: "sent_properties (out ! 1) = [(js ''id'', JNum 8), (js ''private'', JBool True)]"
    unfolding a1 [THEN conjunct2, THEN conjunct2]
    by (simp add: repos_two_def spec_summary_fields_def)
  have e: "out = [JObj
          [(js ''id'', JNum 7),
           (js ''name'', JStr (js ''echo'')),
           (js ''fullName'', JStr (js ''octo/echo'')),
           (js ''description'', JUndefined),
           (js ''private'', JUndefined),
           (js ''htmlUrl'', JUndefined),
           (js ''language'', JUndefined),
           (js ''updatedAt'', JUndefined),
           (js ''stargazersCount'', JUndefined),
           (js ''forksCount'', JUndefined)],
         JObj
          [(js ''id'', JNum 8),
           (js ''name'', JUndefined),
           (js ''fullName'', JUndefined),
           (js ''description'', JUndefined),
           (js ''private'', JBool True),
           (js ''htmlUrl'', JUndefined),
           (js ''language'', JUndefined),
           (js ''updatedAt'', JUndefined),
           (js ''stargazersCount'', JUndefined),
           (js ''forksCount'', JUndefined)]]"
    using o o0 o1 by simp
  have "map sent_properties out = [sent_properties (out ! 0), sent_properties (out ! 1)]"
    using l2 by (subst o) simp
  then have m: "map sent_properties out =
        [[(js ''id'', JNum 7), (js ''name'', JStr (js ''echo'')),
          (js ''fullName'', JStr (js ''octo/echo''))],
         [(js ''id'', JNum 8), (js ''private'', JBool True)]]"
    by (simp only: s0 s1)
  have n: "JNull \<notin> set repos_two" "JUndefined \<notin> set repos_two"
    by (simp_all add: repos_two_def)
  have ex: "\<exists>out. response (repositories env_ok [js ''u1'' \<mapsto> user_linked] (js ''u1'')) =
       Json 200 (JObj [(js ''success'', JBool True), (js ''repositories'', JArr out)]) \<and>
     map sent_properties out =
        [[(js ''id'', JNum 7), (js ''name'', JStr (js ''echo'')),
          (js ''fullName'', JStr (js ''octo/echo''))],
         [(js ''id'', JNum 8), (js ''private'', JBool True)]]"
    by (rule exI [of _ out], rule conjI, rule out(1), rule m)
  from out(1) e have r: "response (repositories env_ok [js ''u1'' \<mapsto> user_linked] (js ''u1'')) = Json 200 (JObj
     [(js ''success'', JBool True),
      (js ''repositories'', JArr
        [JObj
          [(js ''id'', JNum 7),
           (js ''name'', JStr (js ''echo'')),
           (js ''fullName'', JStr (js ''octo/echo'')),
           (js ''description'', JUndefined),
           (js ''private'', JUndefined),
           (js ''htmlUrl'', JUndefined),
           (js ''language'', JUndefined),
           (js ''updatedAt'', JUndefined),
           (js ''stargazersCount'', JUndefined),
           (js ''forksCount'', JUndefined)],
         JObj
          [(js ''id'', JNum 8),
           (js ''name'', JUndefined),
           (js ''fullName'', JUndefined),
           (js ''description'', JUndefined),
           (js ''private'', JBool True),
           (js ''htmlUrl'', JUndefined),
           (js ''language'', JUndefined),
           (js ''updatedAt'', JUndefined),
           (js ''stargazersCount'', JUndefined),
           (js ''forksCount'', JUndefined)]])])"
    by simp
  from h(1-4) n r ex show ?thesis
    by (intro conjI)
qed

text \<open>
  An array with a \<open>null\<close> entry is not mapped: the access to \<open>id\<close> raises and the
  handler answers 500.
\<close>

theorem repositories_null_entry_counterexample:
  "fetch_repos env_repos_null (githubAccessToken user_linked) = Inr (JArr [JNull]) \<and>
   repositories env_repos_null [js ''u1'' \<mapsto> user_linked] (js ''u1'') =
     \<lparr>response = Json 500 (message ''Failed to fetch repositories''),
      store = [js ''u1'' \<mapsto> user_linked], effects = [Outbound repos_url]\<rparr>"
  by (simp add: repositories_def findById_def env_repos_null_def env_ok_def user_linked_def
      js_map_def repo_summary_def repositories_failure_def)

end
